theory Spec2Isabelle
  imports Main "HOL-Library.Word"
begin

section \<open>simple\_lookup: the record list and its renderer\<close>

text \<open>
  A shallow embedding of \<^verbatim>\<open>main.c\<close>. Pointers are addresses (natural numbers, 0 is
  \<^verbatim>\<open>NULL\<close>); the nodes obtained from \<^verbatim>\<open>malloc\<close> live in a store from addresses to
  structs; the answer buffer is the only byte memory the program may read; what the
  program has passed to \<^verbatim>\<open>printf\<close> and to \<^verbatim>\<open>perror\<close> is part of the state. Dereferencing \<^verbatim>\<open>NULL\<close> or an
  address that holds nothing stops the program (\<open>Crash\<close>); a loop that does not end has no
  outcome (\<open>None\<close>).
\<close>

subsection \<open>Machine types and constants\<close>

type_synonym addr = nat
type_synonym c_int = "32 word"
type_synonym u_long = "64 word"
type_synonym u_char = "8 word"

abbreviation (input) NULL :: addr where
  "NULL \<equiv> 0"

text \<open>The two record types the renderer knows, with their values in \<^verbatim>\<open>arpa/nameser.h\<close>.\<close>

definition ns_t_a :: c_int where
  "ns_t_a = 1"

definition ns_t_cname :: c_int where
  "ns_t_cname = 5"

text \<open>\<^verbatim>\<open>struct rr_response\<close>: the integer fields are read as signed, \<open>ttl\<close> as unsigned.\<close>

record rr_response =
  rr_type :: c_int
  rr_class :: c_int
  ttl :: u_long
  rdlength :: c_int
  rdata :: addr
  rr_next :: addr

text \<open>
  The byte memory: the answer buffer, \<open>bytes\<close> long, at address \<open>base\<close>. Nothing else can
  be read through an \<^verbatim>\<open>rdata\<close> pointer.
\<close>

record memory =
  base :: addr
  bytes :: "u_char list"

text \<open>
  The state. \<open>heap\<close> is the memory that can be read as a \<^verbatim>\<open>struct rr_response\<close>: the nodes
  \<^verbatim>\<open>malloc\<close> has handed out, and whatever older block is still mapped. \<open>fresh\<close> lists what
  the coming calls of \<^verbatim>\<open>malloc\<close> hand out: an address and the indeterminate contents found
  there (\<^verbatim>\<open>malloc\<close> does not clear them, and neither does \<^verbatim>\<open>rr_response_new\<close>). \<open>reads\<close> logs
  the byte addresses read so far.
\<close>

record state =
  heap :: "addr \<rightharpoonup> rr_response"
  fresh :: "(addr \<times> rr_response) list"
  stdout :: string
  stderr :: "string list"
  reads :: "addr list"

datatype outcome = Done state | Crash state

subsection \<open>Output\<close>

definition printf :: "string \<Rightarrow> state \<Rightarrow> state" where
  "printf s st = st\<lparr>stdout := stdout st @ s\<rparr>"

text \<open>\<^verbatim>\<open>perror\<close> and \<^verbatim>\<open>fprintf(stderr, ...)\<close>: the message goes to the error stream; nothing else happens.\<close>

definition perror :: "string \<Rightarrow> state \<Rightarrow> state" where
  "perror msg st = st\<lparr>stderr := stderr st @ [msg]\<rparr>"

definition digit :: "nat \<Rightarrow> char" where
  "digit n = ''0123456789abcdef'' ! n"

function dec :: "nat \<Rightarrow> string" where
  "dec n = (if n < 10 then [digit n] else dec (n div 10) @ [digit (n mod 10)])"
  by pat_completeness auto
termination
  by (relation "measure id") auto

declare dec.simps [simp del]

text \<open>\<^verbatim>\<open>%d\<close> of an \<^verbatim>\<open>int\<close>.\<close>

definition fmt_d :: "c_int \<Rightarrow> string" where
  "fmt_d w = (if sint w < 0 then CHR ''-'' # dec (nat (- sint w)) else dec (nat (sint w)))"

text \<open>\<^verbatim>\<open>%lu\<close> of an \<^verbatim>\<open>unsigned long\<close>.\<close>

definition fmt_lu :: "u_long \<Rightarrow> string" where
  "fmt_lu w = dec (unat w)"

text \<open>\<^verbatim>\<open>%d\<close> of an \<^verbatim>\<open>unsigned char\<close>, promoted to \<^verbatim>\<open>int\<close>.\<close>

definition fmt_d_uchar :: "u_char \<Rightarrow> string" where
  "fmt_d_uchar b = dec (unat b)"

text \<open>\<^verbatim>\<open>%02x\<close> of an \<^verbatim>\<open>unsigned char\<close>.\<close>

definition fmt_02x :: "u_char \<Rightarrow> string" where
  "fmt_02x b = [digit (unat b div 16), digit (unat b mod 16)]"

subsection \<open>Reading the answer buffer\<close>

definition readable :: "memory \<Rightarrow> addr \<Rightarrow> bool" where
  "readable m a = (a \<noteq> NULL \<and> base m \<le> a \<and> a < base m + length (bytes m))"

definition load8 :: "memory \<Rightarrow> addr \<Rightarrow> u_char option" where
  "load8 m a = (if readable m a then Some (bytes m ! (a - base m)) else None)"

text \<open>The bytes before the first NUL; \<open>None\<close> when the memory ends before a NUL is found.\<close>

fun scan_cstr :: "u_char list \<Rightarrow> u_char list option" where
  "scan_cstr [] = None"
| "scan_cstr (b # bs) = (if b = 0 then Some [] else map_option ((#) b) (scan_cstr bs))"

definition load_cstr :: "memory \<Rightarrow> addr \<Rightarrow> u_char list option" where
  "load_cstr m a = (if readable m a then scan_cstr (drop (a - base m) (bytes m)) else None)"

definition log_reads :: "addr list \<Rightarrow> state \<Rightarrow> state" where
  "log_reads as st = st\<lparr>reads := reads st @ as\<rparr>"

definition text_of :: "u_char list \<Rightarrow> string" where
  "text_of bs = map (\<lambda>b. char_of (unat b)) bs"

subsection \<open>The renderer\<close>

text \<open>The four labelled fields every record starts with (lines 69 to 72).\<close>

definition header :: "rr_response \<Rightarrow> string" where
  "header c = ''Type: '' @ fmt_d (rr_type c) @ '' '' @ ''Class: '' @ fmt_d (rr_class c) @ '' ''
     @ ''TTL: '' @ fmt_lu (ttl c) @ '' '' @ ''RDLength: '' @ fmt_d (rdlength c) @ '' ''"

definition print_header :: "rr_response \<Rightarrow> state \<Rightarrow> state" where
  "print_header c st =
     printf (''RDLength: '' @ fmt_d (rdlength c) @ '' '')
       (printf (''TTL: '' @ fmt_lu (ttl c) @ '' '')
         (printf (''Class: '' @ fmt_d (rr_class c) @ '' '')
           (printf (''Type: '' @ fmt_d (rr_type c) @ '' '') st)))"

text \<open>\<^verbatim>\<open>case ns_t_a\<close>: the four bytes are read only when the length is 4.\<close>

definition print_a :: "memory \<Rightarrow> rr_response \<Rightarrow> state \<Rightarrow> outcome" where
  "print_a m c st =
     (if rdlength c = 4 then
        (case load8 m (rdata c) of None \<Rightarrow> Crash st | Some b0 \<Rightarrow>
        (case load8 m (rdata c + 1) of None \<Rightarrow> Crash st | Some b1 \<Rightarrow>
        (case load8 m (rdata c + 2) of None \<Rightarrow> Crash st | Some b2 \<Rightarrow>
        (case load8 m (rdata c + 3) of None \<Rightarrow> Crash st | Some b3 \<Rightarrow>
           Done (printf (''RData: '' @ fmt_d_uchar b0 @ ''.'' @ fmt_d_uchar b1 @ ''.''
                   @ fmt_d_uchar b2 @ ''.'' @ fmt_d_uchar b3 @ ''\<newline>'')
                 (log_reads [rdata c, rdata c + 1, rdata c + 2, rdata c + 3] st))))))
      else Done (printf ''Invalid A record length\<newline>'' st))"

text \<open>\<^verbatim>\<open>case ns_t_cname\<close>: \<^verbatim>\<open>%s\<close> reads from \<^verbatim>\<open>rdata\<close> up to the first NUL, whatever \<^verbatim>\<open>rdlength\<close> is.\<close>

definition print_cname :: "memory \<Rightarrow> rr_response \<Rightarrow> state \<Rightarrow> outcome" where
  "print_cname m c st =
     (case load_cstr m (rdata c) of
        None \<Rightarrow> Crash st
      | Some s \<Rightarrow> Done (printf (''RData (CNAME): '' @ text_of s @ ''\<newline>'')
                    (log_reads (map (\<lambda>k. rdata c + k) [0..<Suc (length s)]) st)))"

text \<open>\<^verbatim>\<open>default\<close>: the loop over \<^verbatim>\<open>j\<close> from 0 while \<^verbatim>\<open>j < rdlength\<close>.\<close>

function hex_loop :: "memory \<Rightarrow> rr_response \<Rightarrow> int \<Rightarrow> state \<Rightarrow> outcome" where
  "hex_loop m c j st =
     (if j < sint (rdlength c) then
        (case load8 m (rdata c + nat j) of
           None \<Rightarrow> Crash st
         | Some b \<Rightarrow> hex_loop m c (j + 1) (printf (fmt_02x b @ '' '') (log_reads [rdata c + nat j] st)))
      else Done st)"
  by pat_completeness auto
termination
  by (relation "measure (\<lambda>(m, c, j, st). nat (sint (rdlength c) - j))") auto

declare hex_loop.simps [simp del]

definition print_unknown :: "memory \<Rightarrow> rr_response \<Rightarrow> state \<Rightarrow> outcome" where
  "print_unknown m c st =
     (case hex_loop m c 0 (printf ''RData (unknown type): '' st) of
        Crash s \<Rightarrow> Crash s
      | Done s \<Rightarrow> Done (printf ''\<newline>'' s))"

text \<open>The body of the renderer's loop (lines 69 to 97) for the node \<open>c\<close>.\<close>

definition render_record :: "memory \<Rightarrow> rr_response \<Rightarrow> state \<Rightarrow> outcome" where
  "render_record m c st =
     (let st1 = print_header c st;
          st2 = (if rdata c = NULL then perror ''rdata is NULL'' st1 else st1)
      in if rr_type c = ns_t_a then print_a m c st2
         else if rr_type c = ns_t_cname then print_cname m c st2
         else print_unknown m c st2)"

subsection \<open>The list\<close>

text \<open>Reading the struct at a pointer: nothing is at \<^verbatim>\<open>NULL\<close> or at an address \<^verbatim>\<open>malloc\<close> never returned.\<close>

definition deref :: "state \<Rightarrow> addr \<Rightarrow> rr_response option" where
  "deref st p = (if p = NULL then None else heap st p)"

text \<open>
  \<^verbatim>\<open>malloc(sizeof(struct rr_response))\<close>: the next entry of \<open>fresh\<close>, whose contents are
  left as they are. It fails (returns \<^verbatim>\<open>NULL\<close>) when \<open>fresh\<close> is used up, and an entry
  naming \<^verbatim>\<open>NULL\<close> or an address in use stands for a failed call.
\<close>

definition malloc :: "state \<Rightarrow> addr \<times> state" where
  "malloc st =
     (case fresh st of
        [] \<Rightarrow> (NULL, st)
      | (a, g) # rest \<Rightarrow>
          if a = NULL \<or> heap st a \<noteq> None then (NULL, st\<lparr>fresh := rest\<rparr>)
          else (a, st\<lparr>heap := (heap st)(a \<mapsto> g), fresh := rest\<rparr>))"

definition rr_response_new :: "state \<Rightarrow> addr \<times> state" where
  "rr_response_new st =
     (case malloc st of (response, st1) \<Rightarrow>
        if response = NULL then (response, perror ''Could not allocate rr_response'' st1)
        else (response, st1))"

definition rr_response_free :: "addr \<Rightarrow> state \<Rightarrow> state" where
  "rr_response_free response st =
     (if response = NULL then st else st\<lparr>heap := (heap st)(response := None)\<rparr>)"

text \<open>
  The loop of \<^verbatim>\<open>rr_response_add\<close> and the store after it: walk while \<^verbatim>\<open>current->next\<close>
  is not \<^verbatim>\<open>NULL\<close>, then set \<^verbatim>\<open>current->next = new\<close>. On a cyclic list the walk never ends.
\<close>

partial_function (option) add_loop :: "addr \<Rightarrow> addr \<Rightarrow> state \<Rightarrow> outcome option" where
  "add_loop current new st =
     (case deref st current of
        None \<Rightarrow> Some (Crash st)
      | Some c \<Rightarrow>
          if rr_next c \<noteq> NULL then add_loop (rr_next c) new st
          else Some (Done (st\<lparr>heap := (heap st)(current \<mapsto> c\<lparr>rr_next := new\<rparr>)\<rparr>)))"

declare add_loop.simps [code]

definition rr_response_add :: "addr \<Rightarrow> addr \<Rightarrow> state \<Rightarrow> outcome option" where
  "rr_response_add response new st =
     add_loop response new (if response = NULL then perror ''response is NULL'' st else st)"

text \<open>The loop of \<^verbatim>\<open>rr_pretty_print_all\<close>, from \<^verbatim>\<open>current\<close> on.\<close>

partial_function (option) print_loop :: "memory \<Rightarrow> addr \<Rightarrow> state \<Rightarrow> outcome option" where
  "print_loop m current st =
     (if current \<noteq> NULL then
        (case deref st current of
           None \<Rightarrow> Some (Crash st)
         | Some c \<Rightarrow>
             (case render_record m c st of
                Crash s \<Rightarrow> Some (Crash s)
              | Done s \<Rightarrow> print_loop m (rr_next c) s))
      else Some (Done st))"

declare print_loop.simps [code]

text \<open>\<^verbatim>\<open>rr_pretty_print_all\<close>: the first node is skipped, whatever it holds.\<close>

definition rr_pretty_print_all :: "memory \<Rightarrow> addr \<Rightarrow> state \<Rightarrow> outcome option" where
  "rr_pretty_print_all m response st =
     (let st1 = (if response = NULL then perror ''response is NULL'' st else st)
      in case deref st1 response of
           None \<Rightarrow> Some (Crash st1)
         | Some h \<Rightarrow> print_loop m (rr_next h) st1)"

subsection \<open>The decoder\<close>

text \<open>
  \<^verbatim>\<open>ns_rr\<close> as \<^verbatim>\<open>arpa/nameser.h\<close> declares it (the name aside), each field under the name of
  the macro that reads it.
\<close>

record ns_rr =
  ns_rr_type :: "16 word"
  ns_rr_class :: "16 word"
  ns_rr_ttl :: "32 word"
  ns_rr_rdlen :: "16 word"
  ns_rr_rdata :: addr

text \<open>
  A parsed message: the answer count of its header, and for each index what
  \<^verbatim>\<open>ns_parserr(msg, ns_s_an, i, &rr)\<close> returns together with what \<^verbatim>\<open>rr\<close> holds after the call
  (on failure, whatever was there).
\<close>

record ns_msg =
  ns_msg_count :: "16 word"
  ns_parserr :: "int \<Rightarrow> int \<times> ns_rr"

text \<open>One round of the loop of \<^verbatim>\<open>rr_response_parse\<close> (lines 111 to 142).\<close>

definition parse_step :: "addr \<Rightarrow> ns_msg \<Rightarrow> int \<Rightarrow> state \<Rightarrow> outcome option" where
  "parse_step response msg i st =
     (case ns_parserr msg i of (r, rr) \<Rightarrow>
        (case rr_response_new (if r < 0 then perror ''Could not parse response'' st else st) of
           (new, st2) \<Rightarrow>
             (case deref st2 new of
                None \<Rightarrow> Some (Crash st2)
              | Some n \<Rightarrow>
                  rr_response_add response new
                    (st2\<lparr>heap := (heap st2)(new \<mapsto>
                       n\<lparr>rr_type := ucast (ns_rr_type rr), rr_class := ucast (ns_rr_class rr),
                         ttl := ucast (ns_rr_ttl rr), rdlength := ucast (ns_rr_rdlen rr),
                         rdata := ns_rr_rdata rr\<rparr>)\<rparr>))))"

function parse_loop :: "addr \<Rightarrow> ns_msg \<Rightarrow> int \<Rightarrow> c_int \<Rightarrow> state \<Rightarrow> outcome option" where
  "parse_loop response msg i ancount st =
     (if i < sint ancount then
        (case parse_step response msg i st of
           None \<Rightarrow> None
         | Some (Crash s) \<Rightarrow> Some (Crash s)
         | Some (Done s) \<Rightarrow> parse_loop response msg (i + 1) ancount s)
      else Some (Done st))"
  by pat_completeness auto
termination
  by (relation "measure (\<lambda>(response, msg, i, ancount, st). nat (sint ancount - i))") auto

declare parse_loop.simps [simp del]

definition rr_response_parse :: "addr \<Rightarrow> ns_msg \<Rightarrow> c_int \<Rightarrow> state \<Rightarrow> outcome option" where
  "rr_response_parse response msg ancount st =
     parse_loop response msg 0 ancount
       (if response = NULL then perror ''response is NULL'' st else st)"

subsection \<open>The program\<close>

definition MAX_HOSTNAME_LEN :: nat where
  "MAX_HOSTNAME_LEN = 253"

definition REG_NOMATCH :: int where
  "REG_NOMATCH = 1"

text \<open>
  What the library and the network answer: the results of \<^verbatim>\<open>regcomp\<close> and of \<^verbatim>\<open>regexec\<close>
  (for the pattern of line 153, on a given string), whether the answer buffer could be
  allocated, the result of \<^verbatim>\<open>res_query\<close> for a host name, the buffer it fills, and the
  result of \<^verbatim>\<open>ns_initparse\<close> with the message it yields.
\<close>

record env =
  regcomp :: int
  regexec :: "string \<Rightarrow> int"
  ns_buffer_allocated :: bool
  res_query :: "string \<Rightarrow> int"
  ns_buffer :: memory
  ns_initparse :: "int \<times> ns_msg"

definition isvalidhostname :: "env \<Rightarrow> string \<Rightarrow> state \<Rightarrow> int \<times> state" where
  "isvalidhostname e hostname st =
     (let st1 = (if regcomp e \<noteq> 0 then perror ''Could not compile regex'' st else st);
          reti = regexec e hostname
      in if reti = REG_NOMATCH then (1, perror ''Hostname is invalid'' st1)
         else if reti \<noteq> 0 then (1, perror ''Could not execute regex'' st1)
         else (0, st1))"

text \<open>How the program ends: with an exit status, or killed by a fault.\<close>

datatype exit = Exit int state | Killed state

text \<open>
  \<^verbatim>\<open>main\<close>, on the argument vector. With an empty vector \<^verbatim>\<open>argv[0]\<close> is \<^verbatim>\<open>NULL\<close>, printed
  as the C library prints it.
\<close>

definition main :: "env \<Rightarrow> string list \<Rightarrow> state \<Rightarrow> exit option" where
  "main e argv st =
     (if length argv < 2 then
        Some (Exit 1 (printf (''Usage: '' @ (case argv of [] \<Rightarrow> ''(null)'' | a # _ \<Rightarrow> a)
                        @ '' <hostname>\<newline>'') st))
      else
        (case isvalidhostname e (argv ! 1)
                (if length (argv ! 1) > 253 then perror ''Hostname is too long'' st else st) of
           (invalid, st2) \<Rightarrow>
             if invalid \<noteq> 0 then Some (Exit 1 st2)
             else if \<not> ns_buffer_allocated e then
               Some (Exit 1 (perror ''Could not allocate ns_buffer'' st2))
             else if res_query e (take MAX_HOSTNAME_LEN (argv ! 1)) < 0 then
               Some (Exit 1 (perror ''Could not resolve hostname''
                 (printf (''Resolving hostname '' @ take MAX_HOSTNAME_LEN (argv ! 1) @ ''\<newline>'') st2)))
             else
               (case ns_initparse e of (r, msg) \<Rightarrow>
                  if r < 0 then
                    Some (Exit 1 (perror ''Could not parse response''
                      (printf (''Resolving hostname '' @ take MAX_HOSTNAME_LEN (argv ! 1) @ ''\<newline>'') st2)))
                  else
                    (case rr_response_new
                            ((if (ucast (ns_msg_count msg) :: c_int) = 0
                              then perror ''No answers found'' else id)
                               (printf (''Resolving hostname '' @ take MAX_HOSTNAME_LEN (argv ! 1)
                                  @ ''\<newline>'') st2)) of
                       (response_list, st5) \<Rightarrow>
                         (case rr_response_parse response_list msg (ucast (ns_msg_count msg)) st5 of
                            None \<Rightarrow> None
                          | Some (Crash s) \<Rightarrow> Some (Killed s)
                          | Some (Done st6) \<Rightarrow>
                              (case rr_pretty_print_all (ns_buffer e) response_list
                                      (printf ''Response:\<newline>'' st6) of
                                 None \<Rightarrow> None
                               | Some (Crash s) \<Rightarrow> Some (Killed s)
                               | Some (Done st7) \<Rightarrow>
                                   Some (Exit 0 (rr_response_free response_list st7))))))))"

subsection \<open>Notions the properties are stated with\<close>

text \<open>The state a run ends in, however it ends.\<close>

fun state_of :: "outcome \<Rightarrow> state" where
  "state_of (Done s) = s"
| "state_of (Crash s) = s"

text \<open>The number a string of decimal digits denotes.\<close>

definition decimal_value :: "string \<Rightarrow> nat" where
  "decimal_value s = foldl (\<lambda>a ch. 10 * a + (of_char ch - 48)) 0 s"

text \<open>
  A non-empty string of decimal digits; the same with an optional minus sign in front, and
  the integer it denotes.
\<close>

definition is_decimal :: "string \<Rightarrow> bool" where
  "is_decimal s = (s \<noteq> [] \<and> set s \<subseteq> set ''0123456789'')"

definition is_signed_decimal :: "string \<Rightarrow> bool" where
  "is_signed_decimal s =
     (case s of [] \<Rightarrow> False | ch # ds \<Rightarrow> if ch = CHR ''-'' then is_decimal ds else is_decimal s)"

definition signed_value :: "string \<Rightarrow> int" where
  "signed_value s =
     (case s of [] \<Rightarrow> 0
      | ch # ds \<Rightarrow> if ch = CHR ''-'' then - int (decimal_value ds) else int (decimal_value s))"

text \<open>The record is a canonical-name record whose text, up to the first NUL, holds a newline byte.\<close>

definition cname_text_has_newline :: "memory \<Rightarrow> rr_response \<Rightarrow> bool" where
  "cname_text_has_newline m c =
     (rr_type c = ns_t_cname \<and>
      (case load_cstr m (rdata c) of None \<Rightarrow> False | Some bs \<Rightarrow> 0x0A \<in> set bs))"

text \<open>Strings separated by single spaces, with no space after the last.\<close>

fun space_separated :: "string list \<Rightarrow> string" where
  "space_separated [] = []"
| "space_separated [x] = x"
| "space_separated (x # y # ys) = x @ '' '' @ space_separated (y # ys)"

text \<open>
  \<open>chain h p xs\<close>: following \<^verbatim>\<open>next\<close> from \<open>p\<close> in the memory \<open>h\<close> visits exactly the nodes
  \<open>xs\<close> (address and contents), in order, and then reaches \<^verbatim>\<open>NULL\<close>.
\<close>

fun chain :: "(addr \<rightharpoonup> rr_response) \<Rightarrow> addr \<Rightarrow> (addr \<times> rr_response) list \<Rightarrow> bool" where
  "chain h p [] = (p = NULL)"
| "chain h p ((a, c) # xs) = (p = a \<and> a \<noteq> NULL \<and> h a = Some c \<and> chain h (rr_next c) xs)"

text \<open>Rendering a sequence of records one after the other, stopping at a fault.\<close>

fun render_list :: "memory \<Rightarrow> rr_response list \<Rightarrow> state \<Rightarrow> outcome" where
  "render_list m [] st = Done st"
| "render_list m (c # cs) st =
     (case render_record m c st of Crash s \<Rightarrow> Crash s | Done s \<Rightarrow> render_list m cs s)"

text \<open>The record a node holds, and the record the decoder stores for an extracted \<^verbatim>\<open>ns_rr\<close>.\<close>

definition rr_fields :: "rr_response \<Rightarrow> c_int \<times> c_int \<times> u_long \<times> c_int \<times> addr" where
  "rr_fields c = (rr_type c, rr_class c, ttl c, rdlength c, rdata c)"

definition extracted :: "ns_rr \<Rightarrow> c_int \<times> c_int \<times> u_long \<times> c_int \<times> addr" where
  "extracted rr = (ucast (ns_rr_type rr), ucast (ns_rr_class rr), ucast (ns_rr_ttl rr),
     ucast (ns_rr_rdlen rr), ns_rr_rdata rr)"

text \<open>
  The allocator hands out distinct unused blocks whose \<^verbatim>\<open>next\<close> field happens to hold
  \<^verbatim>\<open>NULL\<close>: what the list code relies on without establishing it.
\<close>

definition fresh_ok :: "state \<Rightarrow> bool" where
  "fresh_ok st = (distinct (map fst (fresh st)) \<and>
     list_all (\<lambda>(a, g). a \<noteq> NULL \<and> heap st a = None \<and> rr_next g = NULL) (fresh st))"

subsection \<open>Concrete inputs\<close>

definition st0 :: state where
  "st0 = \<lparr>heap = Map.empty, fresh = [], stdout = [], stderr = [], reads = []\<rparr>"

definition mem_a :: memory where
  "mem_a = \<lparr>base = 100, bytes = [93, 184, 216, 34]\<rparr>"

definition rec_a :: rr_response where
  "rec_a = \<lparr>rr_type = 1, rr_class = 1, ttl = 300, rdlength = 4, rdata = 100, rr_next = NULL\<rparr>"

definition mem_none :: memory where
  "mem_none = \<lparr>base = 100, bytes = []\<rparr>"

definition rec_a6 :: rr_response where
  "rec_a6 = \<lparr>rr_type = 1, rr_class = 1, ttl = 300, rdlength = 6, rdata = 100, rr_next = NULL\<rparr>"

definition mem_hex :: memory where
  "mem_hex = \<lparr>base = 100, bytes = [0x01, 0xAB]\<rparr>"

definition rec_hex :: rr_response where
  "rec_hex = \<lparr>rr_type = 99, rr_class = 1, ttl = 60, rdlength = 2, rdata = 100, rr_next = NULL\<rparr>"

definition mem_cname :: memory where
  "mem_cname = \<lparr>base = 100, bytes = [0x77, 0x77, 0x77, 0, 0x61]\<rparr>"

definition rec_cname :: rr_response where
  "rec_cname = \<lparr>rr_type = 5, rr_class = 1, ttl = 600, rdlength = 5, rdata = 100, rr_next = NULL\<rparr>"

text \<open>The name \<^verbatim>\<open>cloudfront.net\<close> as it is encoded in a message: each label after its length.\<close>

definition mem_cf :: memory where
  "mem_cf = \<lparr>base = 100, bytes = [0x0A, 0x63, 0x6C, 0x6F, 0x75, 0x64, 0x66, 0x72, 0x6F, 0x6E, 0x74,
     0x03, 0x6E, 0x65, 0x74, 0x00]\<rparr>"

definition rec_cf :: rr_response where
  "rec_cf = \<lparr>rr_type = 5, rr_class = 1, ttl = 600, rdlength = 16, rdata = 100, rr_next = NULL\<rparr>"

text \<open>A block whose bytes are all zero, and an older block that is still mapped.\<close>

definition zeroed :: rr_response where
  "zeroed = \<lparr>rr_type = 0, rr_class = 0, ttl = 0, rdlength = 0, rdata = NULL, rr_next = NULL\<rparr>"

definition stale :: rr_response where
  "stale = \<lparr>rr_type = 99, rr_class = 7, ttl = 0, rdlength = 0, rdata = NULL, rr_next = NULL\<rparr>"

text \<open>The program's start: nothing written yet, \<open>old\<close> still mapped, \<open>fr\<close> to be handed out.\<close>

definition st_init :: "(addr \<rightharpoonup> rr_response) \<Rightarrow> (addr \<times> rr_response) list \<Rightarrow> state" where
  "st_init old fr = \<lparr>heap = old, fresh = fr, stdout = [], stderr = [], reads = []\<rparr>"

definition rr_a :: ns_rr where
  "rr_a = \<lparr>ns_rr_type = 1, ns_rr_class = 1, ns_rr_ttl = 300, ns_rr_rdlen = 4, ns_rr_rdata = 100\<rparr>"

definition rr_b :: ns_rr where
  "rr_b = \<lparr>ns_rr_type = 99, ns_rr_class = 1, ns_rr_ttl = 60, ns_rr_rdlen = 2, ns_rr_rdata = 104\<rparr>"

definition rr_junk :: ns_rr where
  "rr_junk = \<lparr>ns_rr_type = 0, ns_rr_class = 0, ns_rr_ttl = 0, ns_rr_rdlen = 0, ns_rr_rdata = NULL\<rparr>"

definition mem_answer :: memory where
  "mem_answer = \<lparr>base = 100, bytes = [93, 184, 216, 34, 0x01, 0xAB]\<rparr>"

text \<open>Messages: one answer; two answers; two answers of which the first cannot be extracted; none.\<close>

definition msg_one :: ns_msg where
  "msg_one = \<lparr>ns_msg_count = 1, ns_parserr = (\<lambda>i. if i = 0 then (0, rr_a) else (-1, rr_junk))\<rparr>"

definition msg_two :: ns_msg where
  "msg_two = \<lparr>ns_msg_count = 2,
     ns_parserr = (\<lambda>i. if i = 0 then (0, rr_a) else if i = 1 then (0, rr_b) else (-1, rr_junk))\<rparr>"

definition msg_fail_first :: ns_msg where
  "msg_fail_first = \<lparr>ns_msg_count = 2,
     ns_parserr = (\<lambda>i. if i = 1 then (0, rr_a) else (-1, rr_junk))\<rparr>"

definition msg_empty :: ns_msg where
  "msg_empty = \<lparr>ns_msg_count = 0, ns_parserr = (\<lambda>i. (-1, rr_junk))\<rparr>"

text \<open>A resolver that answers every query with the given message; every host name matches.\<close>

definition env_of :: "ns_msg \<Rightarrow> env" where
  "env_of msg = \<lparr>regcomp = 0, regexec = (\<lambda>s. 0), ns_buffer_allocated = True,
     res_query = (\<lambda>h. 48), ns_buffer = mem_answer, ns_initparse = (0, msg)\<rparr>"

text \<open>A host name of 254 characters that matches the pattern of line 153.\<close>

definition long_name :: string where
  "long_name = concat (replicate 126 ''a.'') @ ''aa''"

section \<open>Properties\<close>

subsection \<open>Formatting\<close>

lemma digit_dec: "n < 10 \<Longrightarrow> digit n \<in> set ''0123456789''"
proof -
  assume "n < 10"
  then have "''0123456789abcdef'' ! n = ''0123456789'' ! n"
    by (simp add: nth_Cons' )
  moreover have "''0123456789'' ! n \<in> set ''0123456789''"
    using \<open>n < 10\<close> by (intro nth_mem) simp
  ultimately show ?thesis by (simp only: digit_def)
qed

lemma digit_value: "n < 10 \<Longrightarrow> (of_char (digit n) :: nat) = 48 + n"
proof -
  assume n: "n < 10"
  have "list_all (\<lambda>k. (of_char (digit k) :: nat) = 48 + k) [0..<10]"
    by (simp add: upt_rec digit_def)
  then have "\<forall>k \<in> set [0..<10]. (of_char (digit k) :: nat) = 48 + k"
    by (simp only: list_all_iff)
  with n show ?thesis by simp
qed

lemma dec_digits: "set (dec n) \<subseteq> set ''0123456789''"
proof (induction n rule: dec.induct)
  case (1 n)
  show ?case
  proof (cases "n < 10")
    case True
    then show ?thesis using digit_dec [of n] by (subst dec.simps) simp
  next
    case False
    have "n mod 10 < 10" by simp
    then have "digit (n mod 10) \<in> set ''0123456789''" by (rule digit_dec)
    with False 1 show ?thesis by (subst dec.simps) simp
  qed
qed

lemma decimal_value_snoc: "decimal_value (s @ [ch]) = 10 * decimal_value s + (of_char ch - 48)"
  by (simp add: decimal_value_def)

lemma dec_value: "decimal_value (dec n) = n"
proof (induction n rule: dec.induct)
  case (1 n)
  show ?case
  proof (cases "n < 10")
    case True
    then show ?thesis
      by (subst dec.simps) (simp add: decimal_value_def digit_value)
  next
    case False
    have "n mod 10 < 10" by simp
    then have "(of_char (digit (n mod 10)) :: nat) = 48 + n mod 10" by (rule digit_value)
    with False 1 show ?thesis
      by (subst dec.simps) (simp add: decimal_value_snoc)
  qed
qed

lemma newline_not_in_dec: "CHR 0x0A \<notin> set (dec n)"
  using dec_digits [of n] by auto

lemma newline_not_in_header: "CHR 0x0A \<notin> set (header c)"
  by (simp add: header_def fmt_d_def fmt_lu_def newline_not_in_dec)


lemma fmt_02x_hex: "length (fmt_02x b) = 2 \<and> set (fmt_02x b) \<subseteq> set ''0123456789abcdef''"
proof -
  have "unat b < 256" using unsigned_less [of b] by simp
  then have "unat b div 16 < 16" by simp
  then have "digit (unat b div 16) \<in> set ''0123456789abcdef''"
    unfolding digit_def by (intro nth_mem) simp
  moreover have "digit (unat b mod 16) \<in> set ''0123456789abcdef''"
    unfolding digit_def by (intro nth_mem) simp
  ultimately show ?thesis by (simp add: fmt_02x_def)
qed

lemma dec_nonempty: "dec n \<noteq> []"
  by (subst dec.simps) simp

lemma is_decimal_dec: "is_decimal (dec n)"
  using dec_digits [of n] dec_nonempty [of n] by (simp add: is_decimal_def)

lemma dec_not_minus: "dec n = ch # ds \<Longrightarrow> ch \<noteq> CHR ''-''"
  using dec_digits [of n] by auto

lemma fmt_d_signed: "is_signed_decimal (fmt_d w) \<and> signed_value (fmt_d w) = sint w"
proof (cases "sint w < 0")
  case True
  then show ?thesis
    by (simp add: fmt_d_def is_signed_decimal_def signed_value_def is_decimal_dec dec_value)
next
  case False
  obtain ch ds where d: "dec (nat (sint w)) = ch # ds"
    using dec_nonempty [of "nat (sint w)"] by (cases "dec (nat (sint w))") auto
  from dec_not_minus [OF d] have nm: "ch \<noteq> CHR ''-''" .
  have "is_decimal (ch # ds)" using is_decimal_dec [of "nat (sint w)"] d by simp
  moreover have "decimal_value (ch # ds) = nat (sint w)"
    using dec_value [of "nat (sint w)"] d by simp
  ultimately show ?thesis using False nm d
    by (simp add: fmt_d_def is_signed_decimal_def signed_value_def)
qed

lemma fmt_lu_decimal: "is_decimal (fmt_lu w) \<and> decimal_value (fmt_lu w) = unat w"
  by (simp add: fmt_lu_def is_decimal_dec dec_value)

lemma char_of_newline: "char_of (unat (b :: u_char)) = CHR 0x0A \<longleftrightarrow> b = 0x0A"
proof -
  have lt: "unat b < 2 ^ 8" using unsigned_less [of b] by simp
  have tb: "take_bit 8 (unat b) = unat b" using lt by (simp only: take_bit_nat_eq_self)
  have oc: "(of_char (CHR 0x0A) :: nat) = 10" by simp
  have u: "unat (0x0A :: u_char) = 10" by simp
  have "char_of (unat b) = CHR 0x0A \<longleftrightarrow> take_bit 8 (unat b) = (of_char (CHR 0x0A) :: nat)"
    by (rule char_of_eq_iff)
  also have "\<dots> \<longleftrightarrow> unat b = unat (0x0A :: u_char)" by (simp only: tb oc u)
  also have "\<dots> \<longleftrightarrow> b = 0x0A" by (rule word_unat_eq_iff [symmetric])
  finally show ?thesis .
qed

lemma text_of_newline: "CHR 0x0A \<in> set (text_of bs) \<longleftrightarrow> 0x0A \<in> set bs"
proof -
  have "CHR 0x0A \<in> set (text_of bs) \<longleftrightarrow> (\<exists>b \<in> set bs. char_of (unat b) = CHR 0x0A)"
    unfolding text_of_def by (simp only: set_map image_iff) metis
  also have "\<dots> \<longleftrightarrow> (\<exists>b \<in> set bs. b = 0x0A)" by (simp only: char_of_newline)
  also have "\<dots> \<longleftrightarrow> 0x0A \<in> set bs" by blast
  finally show ?thesis .
qed

lemma fmt_02x_no_newline: "CHR 0x0A \<notin> set (fmt_02x b)"
  using fmt_02x_hex [of b] by auto

subsection \<open>What output and logging leave alone\<close>

lemma print_header_fields [simp]:
  "stdout (print_header c st) = stdout st @ header c"
  "stderr (print_header c st) = stderr st"
  "reads (print_header c st) = reads st"
  "heap (print_header c st) = heap st"
  "fresh (print_header c st) = fresh st"
  by (simp_all add: print_header_def header_def printf_def)

lemma printf_fields [simp]:
  "stdout (printf s st) = stdout st @ s"
  "stderr (printf s st) = stderr st"
  "reads (printf s st) = reads st"
  "heap (printf s st) = heap st"
  "fresh (printf s st) = fresh st"
  by (simp_all add: printf_def)

lemma perror_fields [simp]:
  "stdout (perror s st) = stdout st"
  "stderr (perror s st) = stderr st @ [s]"
  "reads (perror s st) = reads st"
  "heap (perror s st) = heap st"
  "fresh (perror s st) = fresh st"
  by (simp_all add: perror_def)

lemma log_reads_fields [simp]:
  "stdout (log_reads as st) = stdout st"
  "stderr (log_reads as st) = stderr st"
  "reads (log_reads as st) = reads st @ as"
  "heap (log_reads as st) = heap st"
  "fresh (log_reads as st) = fresh st"
  by (simp_all add: log_reads_def)


subsection \<open>The hex loop\<close>

lemma hex_loop_no_newline:
  "\<exists>rest. stdout (state_of (hex_loop m c j st)) = stdout st @ rest \<and> CHR 0x0A \<notin> set rest"
proof (induction m c j st rule: hex_loop.induct)
  case (1 m c j st)
  have base: "\<exists>rest. stdout st = stdout st @ rest \<and> CHR 0x0A \<notin> set rest"
  proof (rule exI)
    show "stdout st = stdout st @ [] \<and> CHR 0x0A \<notin> set []" by simp
  qed
  show ?case
  proof (cases "j < sint (rdlength c)")
    case False
    then have "hex_loop m c j st = Done st" by (subst hex_loop.simps) simp
    with base show ?thesis by simp
  next
    case True
    show ?thesis
    proof (cases "load8 m (rdata c + nat j)")
      case None
      with True have "hex_loop m c j st = Crash st" by (subst hex_loop.simps) simp
      with base show ?thesis by simp
    next
      case (Some b)
      let ?st' = "printf (fmt_02x b @ '' '') (log_reads [rdata c + nat j] st)"
      from 1 [OF True Some] obtain rest where
        r: "stdout (state_of (hex_loop m c (j + 1) ?st')) = stdout ?st' @ rest"
        and n: "CHR 0x0A \<notin> set rest"
        by blast
      have unf: "hex_loop m c j st = hex_loop m c (j + 1) ?st'"
        using True Some by (subst hex_loop.simps) simp
      have eq: "stdout (state_of (hex_loop m c j st)) = stdout st @ (fmt_02x b @ '' '' @ rest)"
        using r unf by simp
      have nn: "CHR 0x0A \<notin> set (fmt_02x b @ '' '' @ rest)"
        using n fmt_02x_no_newline [of b] by simp
      show ?thesis
      proof (rule exI)
        show "stdout (state_of (hex_loop m c j st)) = stdout st @ (fmt_02x b @ '' '' @ rest)
            \<and> CHR 0x0A \<notin> set (fmt_02x b @ '' '' @ rest)"
          using eq nn by (rule conjI)
      qed
    qed
  qed
qed

lemma hex_loop_heap: "heap (state_of (hex_loop m c j st)) = heap st"
proof (induction m c j st rule: hex_loop.induct)
  case (1 m c j st)
  show ?case
  proof (cases "j < sint (rdlength c)")
    case False
    then show ?thesis by (subst hex_loop.simps) simp
  next
    case True
    show ?thesis
    proof (cases "load8 m (rdata c + nat j)")
      case None
      with True show ?thesis by (subst hex_loop.simps) simp
    next
      case (Some b)
      from 1 [OF True Some] True Some show ?thesis by (subst hex_loop.simps) simp
    qed
  qed
qed

lemma hex_loop_all:
  assumes "length bs = nat (sint (rdlength c))"
    and "\<forall>k < length bs. load8 m (rdata c + k) = Some (bs ! k)"
    and "j \<le> length bs"
  shows "hex_loop m c (int j) st =
           Done (st\<lparr>stdout := stdout st @ concat (map (\<lambda>b. fmt_02x b @ '' '') (drop j bs)),
                    reads := reads st @ map (\<lambda>k. rdata c + k) [j..<length bs]\<rparr>)"
  using assms(3)
proof (induction "length bs - j" arbitrary: j st)
  case 0
  then have "j = length bs" by simp
  then have "\<not> int j < sint (rdlength c)" using assms(1) by simp
  then show ?case using \<open>j = length bs\<close> by (subst hex_loop.simps) simp
next
  case (Suc d)
  then have lt: "j < length bs" by simp
  then have cond: "int j < sint (rdlength c)" using assms(1) by simp
  from lt assms(2) have ld: "load8 m (rdata c + j) = Some (bs ! j)" by simp
  have d: "d = length bs - Suc j" using Suc(2) by simp
  have step: "hex_loop m c (int j + 1) (printf (fmt_02x (bs ! j) @ '' '') (log_reads [rdata c + j] st)) =
     Done ((printf (fmt_02x (bs ! j) @ '' '') (log_reads [rdata c + j] st))
       \<lparr>stdout := stdout (printf (fmt_02x (bs ! j) @ '' '') (log_reads [rdata c + j] st))
           @ concat (map (\<lambda>b. fmt_02x b @ '' '') (drop (Suc j) bs)),
        reads := reads (printf (fmt_02x (bs ! j) @ '' '') (log_reads [rdata c + j] st))
           @ map (\<lambda>k. rdata c + k) [Suc j..<length bs]\<rparr>)"
    using Suc(1) [OF d] lt by (simp add: add.commute)
  have dr: "drop j bs = bs ! j # drop (Suc j) bs" using lt by (simp add: Cons_nth_drop_Suc)
  have up: "[j..<length bs] = j # [Suc j..<length bs]" using lt by (simp add: upt_conv_Cons)
  show ?case using cond ld step
    by (subst hex_loop.simps) (simp add: dr up printf_def log_reads_def)
qed

lemma concat_hex_space_separated:
  "bs \<noteq> [] \<Longrightarrow> concat (map (\<lambda>b. fmt_02x b @ '' '') bs) = space_separated (map fmt_02x bs) @ '' ''"
  by (induction bs rule: induct_list012) simp_all


subsection \<open>C strings\<close>

lemma scan_cstr_Some:
  "scan_cstr xs = Some bs \<Longrightarrow>
     0 \<notin> set bs \<and> length bs < length xs \<and> take (length bs) xs = bs \<and> xs ! length bs = 0"
proof (induction xs arbitrary: bs)
  case Nil
  then show ?case by simp
next
  case (Cons x xs)
  show ?case
  proof (cases "x = 0")
    case True
    with Cons.prems show ?thesis by simp
  next
    case False
    with Cons.prems obtain bs' where bs': "scan_cstr xs = Some bs'" "bs = x # bs'"
      by auto
    from Cons.IH [OF bs'(1)] False bs'(2) show ?thesis by simp
  qed
qed

lemma load_cstr_Some:
  assumes "load_cstr m a = Some bs"
  shows "0 \<notin> set bs \<and> (\<forall>k < length bs. load8 m (a + k) = Some (bs ! k))
           \<and> load8 m (a + length bs) = Some 0"
proof -
  from assms have rd: "readable m a" and sc: "scan_cstr (drop (a - base m) (bytes m)) = Some bs"
    by (auto simp: load_cstr_def split: if_splits)
  let ?xs = "drop (a - base m) (bytes m)"
  from scan_cstr_Some [OF sc] have nz: "0 \<notin> set bs" and len: "length bs < length ?xs"
    and tk: "take (length bs) ?xs = bs" and z: "?xs ! length bs = 0" by auto
  from rd have a: "a \<noteq> 0" "base m \<le> a" "a < base m + length (bytes m)"
    by (auto simp: readable_def)
  have in_range: "\<And>k. k \<le> length bs \<Longrightarrow> readable m (a + k)"
    using a len by (auto simp: readable_def)
  have at: "\<And>k. k \<le> length bs \<Longrightarrow> bytes m ! (a + k - base m) = ?xs ! k"
  proof -
    fix k assume "k \<le> length bs"
    have "a + k - base m = (a - base m) + k" using a by simp
    then show "bytes m ! (a + k - base m) = ?xs ! k" using a len \<open>k \<le> length bs\<close> by simp
  qed
  have "\<forall>k < length bs. load8 m (a + k) = Some (bs ! k)"
  proof (intro allI impI)
    fix k assume k: "k < length bs"
    have "?xs ! k = take (length bs) ?xs ! k" using k by simp
    then have "?xs ! k = bs ! k" using tk by simp
    then show "load8 m (a + k) = Some (bs ! k)"
      using in_range [of k] at [of k] k by (simp add: load8_def)
  qed
  moreover have "load8 m (a + length bs) = Some 0"
    using in_range [of "length bs"] at [of "length bs"] z by (simp add: load8_def)
  ultimately show ?thesis using nz by simp
qed


subsection \<open>Lists in memory\<close>

lemma render_record_heap: "heap (state_of (render_record m c st)) = heap st"
proof -
  let ?st2 = "if rdata c = NULL then perror ''rdata is NULL'' (print_header c st) else print_header c st"
  have h2: "heap ?st2 = heap st" by simp
  have a: "heap (state_of (print_a m c ?st2)) = heap st"
    by (simp add: print_a_def split: option.split)
  have b: "heap (state_of (print_cname m c ?st2)) = heap st"
    by (simp add: print_cname_def split: option.split)
  have "heap (state_of (hex_loop m c 0 (printf ''RData (unknown type): '' ?st2))) = heap st"
    by (simp only: hex_loop_heap printf_fields h2)
  then have d: "heap (state_of (print_unknown m c ?st2)) = heap st"
    unfolding print_unknown_def
    by (cases "hex_loop m c 0 (printf ''RData (unknown type): '' ?st2)") simp_all
  show ?thesis using a b d by (simp add: render_record_def Let_def)
qed

lemma print_loop_chain:
  "chain (heap st) p xs \<Longrightarrow> print_loop m p st = Some (render_list m (map snd xs) st)"
proof (induction xs arbitrary: p st)
  case Nil
  then show ?case by (subst print_loop.simps) simp
next
  case (Cons x xs)
  obtain a c where x: "x = (a, c)" by (cases x)
  from Cons.prems x have p: "p = a" "a \<noteq> NULL" "heap st a = Some c"
    and rest: "chain (heap st) (rr_next c) xs" by simp_all
  show ?case
  proof (cases "render_record m c st")
    case (Crash s)
    with p x show ?thesis by (subst print_loop.simps) (simp add: deref_def)
  next
    case (Done s)
    have "heap s = heap st" using render_record_heap [of m c st] Done by simp
    with rest have "chain (heap s) (rr_next c) xs" by simp
    from Cons.IH [OF this] have "print_loop m (rr_next c) s = Some (render_list m (map snd xs) s)" .
    with p x Done show ?thesis by (subst print_loop.simps) (simp add: deref_def)
  qed
qed

lemma print_all_chain:
  assumes "chain (heap st) head (x # xs)"
  shows "rr_pretty_print_all m head st = Some (render_list m (map snd xs) st)"
proof -
  obtain a c where x: "x = (a, c)" by (cases x)
  with assms have h: "head = a" "a \<noteq> NULL" "heap st a = Some c"
    and rest: "chain (heap st) (rr_next c) xs" by simp_all
  from print_loop_chain [OF rest] h show ?thesis
    by (simp add: rr_pretty_print_all_def deref_def)
qed

lemma add_loop_chain:
  assumes "chain (heap st) p xs" and "xs \<noteq> []"
  shows "add_loop p new st =
           Some (Done (st\<lparr>heap := (heap st)(fst (last xs) \<mapsto> (snd (last xs))\<lparr>rr_next := new\<rparr>)\<rparr>))"
  using assms
proof (induction xs arbitrary: p)
  case Nil
  then show ?case by simp
next
  case (Cons x xs)
  obtain a c where x: "x = (a, c)" by (cases x)
  from Cons.prems x have p: "p = a" "a \<noteq> NULL" "heap st a = Some c"
    and rest: "chain (heap st) (rr_next c) xs" by simp_all
  show ?case
  proof (cases xs)
    case Nil
    with rest have "rr_next c = NULL" by simp
    with p x Nil show ?thesis by (subst add_loop.simps) (simp add: deref_def)
  next
    case more: (Cons y ys)
    then have ne: "xs \<noteq> []" by simp
    from rest more have nn: "rr_next c \<noteq> NULL" by (cases y) auto
    have ih: "add_loop (rr_next c) new st =
           Some (Done (st\<lparr>heap := (heap st)(fst (last xs) \<mapsto> (snd (last xs))\<lparr>rr_next := new\<rparr>)\<rparr>))"
      by (rule Cons.IH [OF rest ne])
    have l: "last (x # xs) = last xs" using ne by simp
    have "add_loop p new st = add_loop (rr_next c) new st"
      using p nn by (subst add_loop.simps) (simp add: deref_def)
    then show ?thesis by (simp only: ih l)
  qed
qed

lemma chain_append_new:
  assumes "chain h p xs" and "xs \<noteq> []" and "distinct (map fst xs)"
    and "new \<notin> fst ` set xs" and "new \<noteq> NULL" and "h new = Some n" and "rr_next n = NULL"
  shows "chain (h(fst (last xs) \<mapsto> (snd (last xs))\<lparr>rr_next := new\<rparr>)) p
           (butlast xs @ [(fst (last xs), (snd (last xs))\<lparr>rr_next := new\<rparr>), (new, n)])"
  using assms(1-4)
proof (induction xs arbitrary: p)
  case Nil
  then show ?case by simp
next
  case (Cons x xs)
  obtain a c where x: "x = (a, c)" by (cases x)
  from Cons.prems x have p: "p = a" "a \<noteq> NULL" "h a = Some c"
    and rest: "chain h (rr_next c) xs" by simp_all
  show ?case
  proof (cases "xs = []")
    case True
    with p x assms(5-7) Cons.prems(4) show ?thesis by simp
  next
    case False
    from Cons.prems x have d: "distinct (map fst xs)" "a \<notin> fst ` set xs" "new \<notin> fst ` set xs" "new \<noteq> a"
      by auto
    from False have "last xs \<in> set xs" by simp
    with d(2) have ne: "fst (last xs) \<noteq> a" by force
    from Cons.IH [OF rest False d(1) d(3)] p x False ne show ?thesis by simp
  qed
qed

lemma chain_frame:
  "chain h p xs \<Longrightarrow> a \<notin> fst ` set xs \<Longrightarrow> chain (h(a \<mapsto> v)) p xs"
  by (induction xs arbitrary: p) auto

lemma fields_next [simp]: "rr_fields (c\<lparr>rr_next := n\<rparr>) = rr_fields c"
  by (simp add: rr_fields_def)


subsection \<open>The decoder on blocks whose \<^verbatim>\<open>next\<close> field holds \<^verbatim>\<open>NULL\<close>\<close>

lemma parse_step_chain:
  assumes ok: "fresh_ok st" and fr: "fresh st = (a, g) # rest"
    and ch: "chain (heap st) head xs" and ne: "xs \<noteq> []" and dist: "distinct (map fst xs)"
    and sub: "fst ` set xs \<subseteq> dom (heap st)"
    and succ: "0 \<le> fst (ns_parserr msg i)"
  shows "\<exists>st' xs'. parse_step head msg i st = Some (Done st')
      \<and> chain (heap st') head xs' \<and> map fst xs' = map fst xs @ [a]
      \<and> map (rr_fields \<circ> snd) xs' = map (rr_fields \<circ> snd) xs @ [extracted (snd (ns_parserr msg i))]
      \<and> fresh st' = rest \<and> fresh_ok st' \<and> fst ` set xs' \<subseteq> dom (heap st')
      \<and> distinct (map fst xs')
      \<and> stdout st' = stdout st \<and> stderr st' = stderr st \<and> reads st' = reads st"
proof -
  obtain r rr where prr: "ns_parserr msg i = (r, rr)" by (cases "ns_parserr msg i")
  with succ have r: "\<not> r < 0" by simp
  from ok fr have a: "a \<noteq> NULL" "heap st a = None" "rr_next g = NULL"
    and d: "distinct (map fst rest)" "a \<notin> fst ` set rest"
    and rest_ok: "list_all (\<lambda>(b, g'). b \<noteq> NULL \<and> heap st b = None \<and> rr_next g' = NULL) rest"
    by (auto simp: fresh_ok_def)
  define n where "n = g\<lparr>rr_type := ucast (ns_rr_type rr), rr_class := ucast (ns_rr_class rr),
      ttl := ucast (ns_rr_ttl rr), rdlength := ucast (ns_rr_rdlen rr), rdata := ns_rr_rdata rr\<rparr>"
  define h3 where "h3 = (heap st)(a \<mapsto> n)"
  define st3 where "st3 = st\<lparr>fresh := rest, heap := h3\<rparr>"
  have new: "rr_response_new st = (a, st\<lparr>heap := (heap st)(a \<mapsto> g), fresh := rest\<rparr>)"
    using fr a by (simp add: rr_response_new_def malloc_def)
  have step: "parse_step head msg i st = rr_response_add head a st3"
    using prr r new a by (simp add: parse_step_def deref_def st3_def h3_def n_def)
  from ch ne have head: "head \<noteq> NULL" by (cases xs) auto
  from sub a(2) have anx: "a \<notin> fst ` set xs" by auto
  have ch3: "chain (heap st3) head xs"
    using chain_frame [OF ch anx] by (simp add: st3_def h3_def)
  let ?l = "fst (last xs)" and ?c = "(snd (last xs))\<lparr>rr_next := a\<rparr>"
  define st' where "st' = st3\<lparr>heap := (heap st3)(?l \<mapsto> ?c)\<rparr>"
  define xs' where "xs' = butlast xs @ [(?l, ?c), (a, n)]"
  have add: "rr_response_add head a st3 = Some (Done st')"
    using add_loop_chain [OF ch3 ne, of a] head by (simp add: rr_response_add_def st'_def)
  have h3a: "heap st3 a = Some n" by (simp add: st3_def h3_def)
  have nn: "rr_next n = NULL" using a(3) by (simp add: n_def)
  have ch': "chain (heap st') head xs'"
    using chain_append_new [OF ch3 ne dist anx a(1) h3a nn] by (simp add: st'_def xs'_def)
  have split: "xs = butlast xs @ [last xs]" using ne by simp
  have "map fst xs = map fst (butlast xs) @ [?l]"
    using arg_cong [OF split, of "map fst"] by simp
  then have fst': "map fst xs' = map fst xs @ [a]" by (simp add: xs'_def)
  have "map (rr_fields \<circ> snd) xs = map (rr_fields \<circ> snd) (butlast xs) @ [rr_fields (snd (last xs))]"
    using arg_cong [OF split, of "map (rr_fields \<circ> snd)"] by simp
  moreover have "rr_fields n = extracted rr" by (simp add: rr_fields_def extracted_def n_def)
  ultimately have flds: "map (rr_fields \<circ> snd) xs' = map (rr_fields \<circ> snd) xs @ [extracted (snd (ns_parserr msg i))]"
    using prr by (simp add: xs'_def)
  have lin: "?l \<in> fst ` set xs" using ne by simp
  with sub have ldom: "?l \<in> dom (heap st)" by auto
  have dom': "dom (heap st') = insert a (dom (heap st))"
    using ldom by (auto simp: st'_def st3_def h3_def)
  have fr': "fresh st' = rest" by (simp add: st'_def st3_def)
  have "list_all (\<lambda>(b, g'). b \<noteq> NULL \<and> heap st' b = None \<and> rr_next g' = NULL) rest"
    unfolding list_all_iff
  proof (intro ballI)
    fix x assume x: "x \<in> set rest"
    obtain b g' where bg: "x = (b, g')" by (cases x)
    from rest_ok x bg have b: "b \<noteq> NULL" "heap st b = None" "rr_next g' = NULL"
      by (auto simp: list_all_iff)
    from x bg d(2) have "b \<noteq> a" by force
    with b(2) dom' have "b \<notin> dom (heap st')" by auto
    then have "heap st' b = None" by auto
    with b bg show "case x of (b, g') \<Rightarrow> b \<noteq> NULL \<and> heap st' b = None \<and> rr_next g' = NULL"
      by simp
  qed
  with d(1) fr' have ok': "fresh_ok st'" by (simp add: fresh_ok_def)
  have "fst ` set xs' = insert a (fst ` set xs)"
    using arg_cong [OF fst', of set] by simp
  with sub dom' have sub': "fst ` set xs' \<subseteq> dom (heap st')" by auto
  have dist': "distinct (map fst xs')" using fst' dist anx by simp
  have io: "stdout st' = stdout st" "stderr st' = stderr st" "reads st' = reads st"
    by (simp_all add: st'_def st3_def)
  from step add ch' fst' flds fr' ok' sub' dist' io show ?thesis by metis
qed

lemma parse_loop_chain:
  assumes N: "N = nat (sint ancount)"
    and good: "\<forall>k < N. 0 \<le> fst (ns_parserr msg (int k))"
  shows "i \<le> N \<Longrightarrow> fresh_ok st \<Longrightarrow> N - i \<le> length (fresh st) \<Longrightarrow> chain (heap st) head xs
     \<Longrightarrow> xs \<noteq> [] \<Longrightarrow> distinct (map fst xs) \<Longrightarrow> fst ` set xs \<subseteq> dom (heap st) \<Longrightarrow>
     \<exists>st' xs'. parse_loop head msg (int i) ancount st = Some (Done st')
        \<and> chain (heap st') head xs'
        \<and> map fst xs' = map fst xs @ map fst (take (N - i) (fresh st))
        \<and> map (rr_fields \<circ> snd) xs'
            = map (rr_fields \<circ> snd) xs @ map (\<lambda>k. extracted (snd (ns_parserr msg (int k)))) [i..<N]
        \<and> stdout st' = stdout st \<and> stderr st' = stderr st \<and> reads st' = reads st"
proof (induction "N - i" arbitrary: i st xs)
  case 0
  then have "i = N" by simp
  then have "\<not> int i < sint ancount" using N by simp
  then have "parse_loop head msg (int i) ancount st = Some (Done st)"
    by (subst parse_loop.simps) simp
  with 0 \<open>i = N\<close> show ?case by auto
next
  case (Suc d)
  then have lt: "i < N" by simp
  then have cond: "int i < sint ancount" using N by simp
  from Suc.hyps(2) Suc.prems(3) obtain a g rest where fr: "fresh st = (a, g) # rest"
    by (cases "fresh st") auto
  from good lt have succ: "0 \<le> fst (ns_parserr msg (int i))" by simp
  from parse_step_chain [OF Suc.prems(2) fr Suc.prems(4) Suc.prems(5) Suc.prems(6) Suc.prems(7) succ]
  obtain st1 xs1 where s1: "parse_step head msg (int i) st = Some (Done st1)"
    and c1: "chain (heap st1) head xs1" and f1: "map fst xs1 = map fst xs @ [a]"
    and fl1: "map (rr_fields \<circ> snd) xs1
        = map (rr_fields \<circ> snd) xs @ [extracted (snd (ns_parserr msg (int i)))]"
    and fr1: "fresh st1 = rest" and ok1: "fresh_ok st1"
    and sub1: "fst ` set xs1 \<subseteq> dom (heap st1)" and d1: "distinct (map fst xs1)"
    and io1: "stdout st1 = stdout st" "stderr st1 = stderr st" "reads st1 = reads st"
    by blast
  have d: "d = N - Suc i" using Suc.hyps(2) by simp
  have le: "Suc i \<le> N" using lt by simp
  have len: "N - Suc i \<le> length (fresh st1)" using Suc.hyps(2) Suc.prems(3) fr fr1 by simp
  have ne1: "xs1 \<noteq> []" using f1 by auto
  from Suc.hyps(1) [OF d le ok1 len c1 ne1 d1 sub1]
  obtain st' xs' where r: "parse_loop head msg (int (Suc i)) ancount st1 = Some (Done st')"
    and c': "chain (heap st') head xs'"
    and f': "map fst xs' = map fst xs1 @ map fst (take (N - Suc i) (fresh st1))"
    and fl': "map (rr_fields \<circ> snd) xs'
        = map (rr_fields \<circ> snd) xs1 @ map (\<lambda>k. extracted (snd (ns_parserr msg (int k)))) [Suc i..<N]"
    and io': "stdout st' = stdout st1" "stderr st' = stderr st1" "reads st' = reads st1"
    by blast
  have e: "int (Suc i) = int i + 1" by simp
  from r have r2: "parse_loop head msg (int i + 1) ancount st1 = Some (Done st')"
    by (simp only: e)
  with cond s1 have run: "parse_loop head msg (int i) ancount st = Some (Done st')"
    by (subst parse_loop.simps) simp
  have "N - i = Suc (N - Suc i)" using lt by simp
  then have "take (N - i) ((a, g) # rest) = (a, g) # take (N - Suc i) rest"
    by (simp only: take_Suc_Cons)
  then have tk: "take (N - i) (fresh st) = (a, g) # take (N - Suc i) rest"
    using fr by simp
  have up: "[i..<N] = i # [Suc i..<N]" using lt by (simp add: upt_conv_Cons)
  have f'': "map fst xs' = map fst xs @ map fst (take (N - i) (fresh st))"
    using f' f1 fr1 tk by simp
  have fl'': "map (rr_fields \<circ> snd) xs'
        = map (rr_fields \<circ> snd) xs @ map (\<lambda>k. extracted (snd (ns_parserr msg (int k)))) [i..<N]"
    using fl' fl1 up by simp
  from run c' f'' fl'' io' io1 show ?case by auto
qed

lemma decode_zeroed:
  assumes ok: "fresh_ok st" and N: "N = nat (sint ancount)" and len: "N < length (fresh st)"
    and good: "\<forall>k < N. 0 \<le> fst (ns_parserr msg (int k))"
  shows "\<exists>head st1 st' xs. rr_response_new st = (head, st1)
      \<and> rr_response_parse head msg ancount st1 = Some (Done st')
      \<and> chain (heap st') head xs \<and> length xs = Suc N
      \<and> map (rr_fields \<circ> snd) (tl xs) = map (\<lambda>k. extracted (snd (ns_parserr msg (int k)))) [0..<N]
      \<and> stdout st' = stdout st \<and> stderr st' = stderr st"
proof -
  from len obtain a g rest where fr: "fresh st = (a, g) # rest" by (cases "fresh st") auto
  from ok fr have a: "a \<noteq> NULL" "heap st a = None" "rr_next g = NULL"
    and d: "distinct (map fst rest)" "a \<notin> fst ` set rest"
    and rest_ok: "list_all (\<lambda>(b, g'). b \<noteq> NULL \<and> heap st b = None \<and> rr_next g' = NULL) rest"
    by (auto simp: fresh_ok_def)
  define st1 where "st1 = st\<lparr>heap := (heap st)(a \<mapsto> g), fresh := rest\<rparr>"
  have new: "rr_response_new st = (a, st1)"
    using fr a by (simp add: rr_response_new_def malloc_def st1_def)
  have "list_all (\<lambda>(b, g'). b \<noteq> NULL \<and> heap st1 b = None \<and> rr_next g' = NULL) rest"
    unfolding list_all_iff
  proof (intro ballI)
    fix x assume x: "x \<in> set rest"
    obtain b g' where bg: "x = (b, g')" by (cases x)
    from rest_ok x bg have b: "b \<noteq> NULL" "heap st b = None" "rr_next g' = NULL"
      by (auto simp: list_all_iff)
    from x bg d(2) have "b \<noteq> a" by force
    with b bg show "case x of (b, g') \<Rightarrow> b \<noteq> NULL \<and> heap st1 b = None \<and> rr_next g' = NULL"
      by (simp add: st1_def)
  qed
  with d(1) have ok1: "fresh_ok st1" by (simp add: fresh_ok_def st1_def)
  have c1: "chain (heap st1) a [(a, g)]" using a by (simp add: st1_def)
  have len1: "N - 0 \<le> length (fresh st1)" using len fr by (simp add: st1_def)
  have sub1: "fst ` set [(a, g)] \<subseteq> dom (heap st1)" by (simp add: st1_def)
  have "\<exists>st' xs'. parse_loop a msg (int 0) ancount st1 = Some (Done st')
        \<and> chain (heap st') a xs'
        \<and> map fst xs' = map fst [(a, g)] @ map fst (take (N - 0) (fresh st1))
        \<and> map (rr_fields \<circ> snd) xs'
            = map (rr_fields \<circ> snd) [(a, g)] @ map (\<lambda>k. extracted (snd (ns_parserr msg (int k)))) [0..<N]
        \<and> stdout st' = stdout st1 \<and> stderr st' = stderr st1 \<and> reads st' = reads st1"
    by (rule parse_loop_chain [OF N good _ ok1 len1 c1 _ _ sub1]) simp_all
  then obtain st' xs where r: "parse_loop a msg (int 0) ancount st1 = Some (Done st')"
    and c': "chain (heap st') a xs"
    and f': "map fst xs = map fst [(a, g)] @ map fst (take (N - 0) (fresh st1))"
    and fl': "map (rr_fields \<circ> snd) xs
        = map (rr_fields \<circ> snd) [(a, g)] @ map (\<lambda>k. extracted (snd (ns_parserr msg (int k)))) [0..<N]"
    and io': "stdout st' = stdout st1" "stderr st' = stderr st1"
    by blast
  have run: "rr_response_parse a msg ancount st1 = Some (Done st')"
    using r a(1) by (simp add: rr_response_parse_def)
  have "length (map fst xs) = Suc N" using f' len1 by simp
  then have lxs: "length xs = Suc N" by simp
  have "map (rr_fields \<circ> snd) (tl xs) = tl (map (rr_fields \<circ> snd) xs)" by (simp add: map_tl)
  with fl' have fl: "map (rr_fields \<circ> snd) (tl xs)
      = map (\<lambda>k. extracted (snd (ns_parserr msg (int k)))) [0..<N]" by simp
  have io: "stdout st' = stdout st" "stderr st' = stderr st" using io' by (simp_all add: st1_def)
  from new run c' lxs fl io show ?thesis by blast
qed


text \<open>
  Together: on such blocks, and when every extraction succeeds, the list after the head
  holds exactly the extracted records in their order, and the renderer renders exactly
  these, one after the other, whatever the head's record fields hold.
\<close>

lemma zeroed_blocks_list_rendered:
  assumes ok: "fresh_ok st" and N: "N = nat (sint ancount)" and len: "N < length (fresh st)"
    and good: "\<forall>k < N. 0 \<le> fst (ns_parserr msg (int k))"
  shows "\<exists>head st1 st' cs. rr_response_new st = (head, st1)
      \<and> rr_response_parse head msg ancount st1 = Some (Done st')
      \<and> length cs = N
      \<and> map rr_fields cs = map (\<lambda>k. extracted (snd (ns_parserr msg (int k)))) [0..<N]
      \<and> (\<forall>m out. rr_pretty_print_all m head (printf out st')
            = Some (render_list m cs (printf out st')))"
proof -
  from decode_zeroed [OF ok N len good]
  obtain head st1 st' xs where new: "rr_response_new st = (head, st1)"
    and run: "rr_response_parse head msg ancount st1 = Some (Done st')"
    and ch: "chain (heap st') head xs" and lxs: "length xs = Suc N"
    and fl: "map (rr_fields \<circ> snd) (tl xs)
        = map (\<lambda>k. extracted (snd (ns_parserr msg (int k)))) [0..<N]"
    by blast
  from lxs obtain x xs' where xs: "xs = x # xs'" by (cases xs) auto
  define cs where "cs = map snd xs'"
  have lcs: "length cs = N" using lxs xs by (simp add: cs_def)
  have fcs: "map rr_fields cs = map (\<lambda>k. extracted (snd (ns_parserr msg (int k)))) [0..<N]"
    using fl xs by (simp add: cs_def)
  have pr: "\<forall>m out. rr_pretty_print_all m head (printf out st')
            = Some (render_list m cs (printf out st'))"
  proof (intro allI)
    fix m out
    have "chain (heap (printf out st')) head (x # xs')" using ch xs by simp
    then show "rr_pretty_print_all m head (printf out st')
        = Some (render_list m cs (printf out st'))"
      unfolding cs_def by (rule print_all_chain)
  qed
  from new run lcs fcs pr show ?thesis by blast
qed

text \<open>The assumption on the blocks can be met, and then one answer gives one line.\<close>

lemma fresh_ok_example: "fresh_ok (st_init Map.empty [(16, zeroed), (32, zeroed)])"
  by (simp add: fresh_ok_def st_init_def zeroed_def)

text \<open>
  When the \<^verbatim>\<open>next\<close> field of the node appended last holds an address that is not mapped,
  the renderer prints the record and then faults.
\<close>

lemma uncleared_next_fault:
  "(case main (env_of msg_one) [''simple_lookup'', ''example.com'']
           (st_init Map.empty [(16, zeroed), (32, zeroed\<lparr>rr_next := 80\<rparr>)]) of
      Some (Killed s) \<Rightarrow>
        stdout s = ''Resolving hostname example.com\<newline>Response:\<newline>Type: 1 Class: 1 TTL: 300 RDLength: 4 RData: 93.184.216.34\<newline>''
    | _ \<Rightarrow> False)"
  by code_simp

subsection \<open>The renderer, record by record\<close>

lemmas eval_defs = Let_def render_record_def print_a_def print_cname_def print_unknown_def
  print_header_def printf_def perror_def log_reads_def load8_def load_cstr_def readable_def
  ns_t_a_def ns_t_cname_def fmt_d_def fmt_lu_def fmt_d_uchar_def fmt_02x_def digit_def
  header_def text_of_def

text \<open>
  Claim C4. A record of the address type whose length is 4 and whose four data bytes
  \<open>b0\<close> to \<open>b3\<close> can be read is rendered as the header followed by
  \<^verbatim>\<open>RData: b0.b1.b2.b3\<close>, each byte in decimal, in the order of the data; exactly these
  four bytes are read.
\<close>

theorem a_record_dotted_decimal:
  assumes "rr_type c = ns_t_a" and "rdlength c = 4"
    and "load8 m (rdata c) = Some b0" and "load8 m (rdata c + 1) = Some b1"
    and "load8 m (rdata c + 2) = Some b2" and "load8 m (rdata c + 3) = Some b3"
  shows "\<exists>s. render_record m c st = Done s
           \<and> stdout s = stdout st @ header c @ ''RData: '' @ dec (unat b0) @ ''.'' @ dec (unat b1)
                @ ''.'' @ dec (unat b2) @ ''.'' @ dec (unat b3) @ ''\<newline>''
           \<and> reads s = reads st @ [rdata c, rdata c + 1, rdata c + 2, rdata c + 3]"
  using assms by (simp add: render_record_def Let_def print_a_def fmt_d_uchar_def)

text \<open>The data 93, 184, 216, 34 is rendered as \<^verbatim>\<open>93.184.216.34\<close>.\<close>

theorem a_record_dotted_decimal_witness:
  "rr_type rec_a = ns_t_a \<and> rdlength rec_a = 4
   \<and> load8 mem_a (rdata rec_a) = Some 93 \<and> load8 mem_a (rdata rec_a + 1) = Some 184
   \<and> load8 mem_a (rdata rec_a + 2) = Some 216 \<and> load8 mem_a (rdata rec_a + 3) = Some 34
   \<and> (\<exists>s. render_record mem_a rec_a st0 = Done s
          \<and> stdout s = ''Type: 1 Class: 1 TTL: 300 RDLength: 4 RData: 93.184.216.34\<newline>'')"
proof -
  have h: "rr_type rec_a = ns_t_a" "rdlength rec_a = 4"
    "load8 mem_a (rdata rec_a) = Some 93" "load8 mem_a (rdata rec_a + 1) = Some 184"
    "load8 mem_a (rdata rec_a + 2) = Some 216" "load8 mem_a (rdata rec_a + 3) = Some 34"
    by (simp_all add: rec_a_def mem_a_def ns_t_a_def load8_def readable_def)
  have out: "stdout st0 @ header rec_a @ ''RData: '' @ dec (unat (93 :: u_char)) @ ''.''
      @ dec (unat (184 :: u_char)) @ ''.'' @ dec (unat (216 :: u_char)) @ ''.''
      @ dec (unat (34 :: u_char)) @ ''\<newline>''
      = ''Type: 1 Class: 1 TTL: 300 RDLength: 4 RData: 93.184.216.34\<newline>''"
    by (simp add: st0_def rec_a_def header_def fmt_d_def fmt_lu_def dec.simps digit_def)
  from a_record_dotted_decimal [OF h, of st0] out h show ?thesis by auto
qed

text \<open>
  Claim C6. A record of the address type whose length is not 4 is rendered as the header
  followed by \<^verbatim>\<open>Invalid A record length\<close>, in every memory, and no data byte is read:
  the log of reads is what it was.
\<close>

theorem a_record_invalid_length:
  assumes "rr_type c = ns_t_a" and "rdlength c \<noteq> 4"
  shows "\<exists>s. render_record m c st = Done s
           \<and> stdout s = stdout st @ header c @ ''Invalid A record length\<newline>''
           \<and> reads s = reads st"
  using assms by (simp add: render_record_def Let_def print_a_def)

text \<open>With a length of 6 and no readable byte at all, the marker is printed and nothing is read.\<close>

theorem a_record_invalid_length_witness:
  "rr_type rec_a6 = ns_t_a \<and> rdlength rec_a6 \<noteq> 4
   \<and> (\<exists>s. render_record mem_none rec_a6 st0 = Done s
          \<and> stdout s = ''Type: 1 Class: 1 TTL: 300 RDLength: 6 Invalid A record length\<newline>''
          \<and> reads s = [])"
proof -
  have h: "rr_type rec_a6 = ns_t_a" "rdlength rec_a6 \<noteq> 4"
    by (simp_all add: rec_a6_def ns_t_a_def)
  have out: "stdout st0 @ header rec_a6 @ ''Invalid A record length\<newline>''
      = ''Type: 1 Class: 1 TTL: 300 RDLength: 6 Invalid A record length\<newline>''"
    by (simp add: st0_def rec_a6_def header_def fmt_d_def fmt_lu_def dec.simps digit_def)
  have r: "reads st0 = []" by (simp add: st0_def)
  from a_record_invalid_length [OF h, of mem_none st0] out r h show ?thesis by auto
qed

text \<open>
  Claim C7, as the code has it. A record whose type is neither the address type nor the
  canonical-name type, and whose \<^verbatim>\<open>rdlength\<close> data bytes can be read, is rendered as the
  header, the label \<^verbatim>\<open>RData (unknown type): \<close> and every byte of the data, exactly
  \<^verbatim>\<open>rdlength\<close> of them in their order, each as two lower-case hexadecimal digits followed by
  one space: a space also follows the last byte.
\<close>

theorem unknown_type_hex_dump:
  assumes "rr_type c \<noteq> ns_t_a" and "rr_type c \<noteq> ns_t_cname"
    and "length bs = nat (sint (rdlength c))"
    and "\<forall>k < length bs. load8 m (rdata c + k) = Some (bs ! k)"
  shows "\<exists>s. render_record m c st = Done s
           \<and> stdout s = stdout st @ header c @ ''RData (unknown type): ''
                @ concat (map (\<lambda>b. fmt_02x b @ '' '') bs) @ ''\<newline>''
           \<and> reads s = reads st @ map (\<lambda>k. rdata c + k) [0..<length bs]"
proof -
  have "hex_loop m c (int 0) (printf ''RData (unknown type): ''
          (if rdata c = NULL then perror ''rdata is NULL'' (print_header c st) else print_header c st))
        = Done ((printf ''RData (unknown type): ''
          (if rdata c = NULL then perror ''rdata is NULL'' (print_header c st) else print_header c st))
            \<lparr>stdout := stdout (printf ''RData (unknown type): ''
          (if rdata c = NULL then perror ''rdata is NULL'' (print_header c st) else print_header c st))
               @ concat (map (\<lambda>b. fmt_02x b @ '' '') (drop 0 bs)),
              reads := reads (printf ''RData (unknown type): ''
          (if rdata c = NULL then perror ''rdata is NULL'' (print_header c st) else print_header c st))
               @ map (\<lambda>k. rdata c + k) [0..<length bs]\<rparr>)"
    by (rule hex_loop_all [OF assms(3) assms(4)]) simp
  then show ?thesis using assms(1,2)
    by (simp add: render_record_def Let_def print_unknown_def)
qed

theorem unknown_type_hex_dump_witness:
  "rr_type rec_hex \<noteq> ns_t_a \<and> rr_type rec_hex \<noteq> ns_t_cname
   \<and> length [0x01, 0xAB :: u_char] = nat (sint (rdlength rec_hex))
   \<and> load8 mem_hex (rdata rec_hex + 0) = Some 0x01
   \<and> load8 mem_hex (rdata rec_hex + 1) = Some 0xAB
   \<and> (\<exists>s. render_record mem_hex rec_hex st0 = Done s
          \<and> stdout s = ''Type: 99 Class: 1 TTL: 60 RDLength: 2 RData (unknown type): 01 ab \<newline>''
          \<and> reads s = [100, 101])"
proof -
  have h1: "rr_type rec_hex \<noteq> ns_t_a" "rr_type rec_hex \<noteq> ns_t_cname"
    "length [0x01, 0xAB :: u_char] = nat (sint (rdlength rec_hex))"
    by (simp_all add: rec_hex_def ns_t_a_def ns_t_cname_def)
  have l: "load8 mem_hex (rdata rec_hex + 0) = Some 0x01" "load8 mem_hex (rdata rec_hex + 1) = Some 0xAB"
    by (simp_all add: rec_hex_def mem_hex_def load8_def readable_def)
  then have h2: "\<forall>k < length [0x01, 0xAB :: u_char]. load8 mem_hex (rdata rec_hex + k) = Some ([0x01, 0xAB] ! k)"
    by (simp add: less_Suc_eq)
  have out: "stdout st0 @ header rec_hex @ ''RData (unknown type): ''
      @ concat (map (\<lambda>b. fmt_02x b @ '' '') [0x01, 0xAB]) @ ''\<newline>''
      = ''Type: 99 Class: 1 TTL: 60 RDLength: 2 RData (unknown type): 01 ab \<newline>''"
    by (simp add: st0_def rec_hex_def header_def fmt_d_def fmt_lu_def fmt_02x_def dec.simps digit_def)
  have r: "reads st0 @ map (\<lambda>k. rdata rec_hex + k) [0..<length [0x01, 0xAB :: u_char]] = [100, 101]"
    by (simp add: st0_def rec_hex_def upt_rec)
  from unknown_type_hex_dump [OF h1 h2, of st0] out r h1 l show ?thesis by auto
qed

text \<open>
  The data \<^verbatim>\<open>01 ab\<close> is not rendered as the two bytes separated by a space: the line
  ends with a space before the newline.
\<close>

theorem unknown_type_trailing_space:
  "stdout (state_of (render_record mem_hex rec_hex st0))
     = ''Type: 99 Class: 1 TTL: 60 RDLength: 2 RData (unknown type): 01 ab \<newline>''
   \<and> stdout (state_of (render_record mem_hex rec_hex st0))
     \<noteq> stdout st0 @ header rec_hex @ ''RData (unknown type): ''
         @ space_separated (map fmt_02x [0x01, 0xAB]) @ ''\<newline>''"
  by (simp add: eval_defs hex_loop.simps dec.simps st0_def mem_hex_def rec_hex_def)

text \<open>
  Claim C8. A record of the canonical-name type is rendered as the header, the label
  \<^verbatim>\<open>RData (CNAME): \<close> and the bytes from \<^verbatim>\<open>rdata\<close> up to the first NUL as text, whatever
  \<^verbatim>\<open>rdlength\<close> is: neither a hex dump nor an address.
\<close>

theorem cname_record_text:
  assumes "rr_type c = ns_t_cname" and "load_cstr m (rdata c) = Some bs"
  shows "(\<exists>s. render_record m c st = Done s
            \<and> stdout s = stdout st @ header c @ ''RData (CNAME): '' @ text_of bs @ ''\<newline>'')
         \<and> 0 \<notin> set bs
         \<and> (\<forall>k < length bs. load8 m (rdata c + k) = Some (bs ! k))
         \<and> load8 m (rdata c + length bs) = Some 0"
  using assms load_cstr_Some [OF assms(2)]
  by (simp add: render_record_def Let_def print_cname_def ns_t_a_def ns_t_cname_def)

theorem cname_record_text_witness:
  "rr_type rec_cname = ns_t_cname \<and> load_cstr mem_cname (rdata rec_cname) = Some [0x77, 0x77, 0x77]
   \<and> (\<exists>s. render_record mem_cname rec_cname st0 = Done s
          \<and> stdout s = ''Type: 5 Class: 1 TTL: 600 RDLength: 5 RData (CNAME): www\<newline>'')"
proof -
  have h: "rr_type rec_cname = ns_t_cname" "load_cstr mem_cname (rdata rec_cname) = Some [0x77, 0x77, 0x77]"
    by (simp_all add: rec_cname_def mem_cname_def ns_t_cname_def load_cstr_def readable_def)
  have out: "stdout st0 @ header rec_cname @ ''RData (CNAME): '' @ text_of [0x77, 0x77, 0x77] @ ''\<newline>''
      = ''Type: 5 Class: 1 TTL: 600 RDLength: 5 RData (CNAME): www\<newline>''"
    by (simp add: st0_def rec_cname_def header_def fmt_d_def fmt_lu_def text_of_def dec.simps digit_def char_of_eq_iff)
  from cname_record_text [OF h, of st0] out h show ?thesis by auto
qed

lemma render_record_done_field:
  assumes dn: "render_record m c st = Done s"
  shows "\<exists>field. stdout s = stdout st @ header c @ field @ ''\<newline>''
           \<and> (CHR 0x0A \<in> set field \<longleftrightarrow> cname_text_has_newline m c)"
proof -
  let ?st2 = "if rdata c = NULL then perror ''rdata is NULL'' (print_header c st) else print_header c st"
  have st2: "stdout ?st2 = stdout st @ header c" by simp
  have rr: "render_record m c st =
      (if rr_type c = ns_t_a then print_a m c ?st2
       else if rr_type c = ns_t_cname then print_cname m c ?st2
       else print_unknown m c ?st2)"
    by (simp only: render_record_def Let_def)
  let ?goal = "\<exists>field. stdout s = stdout st @ header c @ field @ ''\<newline>''
           \<and> (CHR 0x0A \<in> set field \<longleftrightarrow> cname_text_has_newline m c)"
  have fin: "?goal" if a: "stdout s = stdout st @ header c @ F @ ''\<newline>''"
      and b: "CHR 0x0A \<in> set F \<longleftrightarrow> cname_text_has_newline m c" for F
  proof (rule exI)
    show "stdout s = stdout st @ header c @ F @ ''\<newline>''
           \<and> (CHR 0x0A \<in> set F \<longleftrightarrow> cname_text_has_newline m c)"
      using a b by (rule conjI)
  qed
  show ?thesis
  proof (cases "rr_type c = ns_t_a")
    case True
    then have nc: "\<not> cname_text_has_newline m c"
      by (simp add: cname_text_has_newline_def ns_t_a_def ns_t_cname_def)
    from True dn rr have pa: "print_a m c ?st2 = Done s" by simp
    show ?thesis
    proof (cases "rdlength c = 4")
      case False
      with pa have "s = printf ''Invalid A record length\<newline>'' ?st2"
        by (simp add: print_a_def)
      then have "stdout s = stdout st @ header c @ ''Invalid A record length'' @ ''\<newline>''"
        by (simp add: st2)
      moreover have "CHR 0x0A \<in> set ''Invalid A record length'' \<longleftrightarrow> cname_text_has_newline m c"
        using nc by simp
      ultimately show ?thesis by (rule fin)
    next
      case four: True
      with pa obtain b0 b1 b2 b3 where
        s: "s = printf (''RData: '' @ fmt_d_uchar b0 @ ''.'' @ fmt_d_uchar b1 @ ''.''
                   @ fmt_d_uchar b2 @ ''.'' @ fmt_d_uchar b3 @ ''\<newline>'')
                 (log_reads [rdata c, rdata c + 1, rdata c + 2, rdata c + 3] ?st2)"
        by (auto simp: print_a_def split: option.splits)
      let ?F = "''RData: '' @ fmt_d_uchar b0 @ ''.'' @ fmt_d_uchar b1 @ ''.''
                   @ fmt_d_uchar b2 @ ''.'' @ fmt_d_uchar b3"
      from s have "stdout s = stdout st @ header c @ ?F @ ''\<newline>''"
        by (simp add: st2)
      moreover have "CHR 0x0A \<in> set ?F \<longleftrightarrow> cname_text_has_newline m c"
        using nc by (simp add: fmt_d_uchar_def newline_not_in_dec)
      ultimately show ?thesis by (rule fin)
    qed
  next
    case False
    show ?thesis
    proof (cases "rr_type c = ns_t_cname")
      case True
      with False dn rr have pc: "print_cname m c ?st2 = Done s" by simp
      then obtain bs where ld: "load_cstr m (rdata c) = Some bs"
        and s: "s = printf (''RData (CNAME): '' @ text_of bs @ ''\<newline>'')
                    (log_reads (map (\<lambda>k. rdata c + k) [0..<Suc (length bs)]) ?st2)"
        by (auto simp: print_cname_def split: option.splits)
      let ?F = "''RData (CNAME): '' @ text_of bs"
      from s have "stdout s = stdout st @ header c @ ?F @ ''\<newline>''"
        by (simp add: st2)
      moreover have "CHR 0x0A \<in> set ?F \<longleftrightarrow> cname_text_has_newline m c"
        using True ld by (simp add: cname_text_has_newline_def text_of_newline)
      ultimately show ?thesis by (rule fin)
    next
      case nc': False
      then have nc: "\<not> cname_text_has_newline m c"
        by (simp add: cname_text_has_newline_def)
      from False nc' dn rr have pu: "print_unknown m c ?st2 = Done s" by simp
      let ?st3 = "printf ''RData (unknown type): '' ?st2"
      from pu obtain x where hx: "hex_loop m c 0 ?st3 = Done x" and s: "s = printf ''\<newline>'' x"
        by (auto simp: print_unknown_def split: outcome.splits)
      from hex_loop_no_newline [of m c 0 ?st3] obtain rest where
        r: "stdout (state_of (hex_loop m c 0 ?st3)) = stdout ?st3 @ rest"
        and n: "CHR 0x0A \<notin> set rest" by blast
      from r hx have "stdout x = stdout ?st3 @ rest" by (simp only: state_of.simps)
      then have "stdout x = stdout st @ header c @ ''RData (unknown type): '' @ rest"
        by (simp only: printf_fields st2 append_assoc)
      with s have "stdout s = stdout st @ header c @ (''RData (unknown type): '' @ rest) @ ''\<newline>''"
        by (simp only: printf_fields append_assoc)
      moreover have "CHR 0x0A \<in> set (''RData (unknown type): '' @ rest) \<longleftrightarrow> cname_text_has_newline m c"
        using nc n by simp
      ultimately show ?thesis by (rule fin)
    qed
  qed
qed

text \<open>
  Claim C9, as the code has it. Every record whose rendering completes is printed as the
  four labelled fields, the data field and a final newline. The type, the class and the
  length are signed decimal integers and the TTL is an unsigned one, with the values of
  the record's fields; they hold no newline, so the data field starts on the line of the
  header. The data field holds a newline, which spreads the record over further lines,
  exactly when the record is a canonical-name record whose text holds a newline byte.
\<close>

theorem header_fields_then_data:
  assumes "render_record m c st = Done s"
  shows "(\<exists>field. stdout s = stdout st @ ''Type: '' @ fmt_d (rr_type c) @ '' Class: ''
              @ fmt_d (rr_class c) @ '' TTL: '' @ fmt_lu (ttl c) @ '' RDLength: ''
              @ fmt_d (rdlength c) @ '' '' @ field @ ''\<newline>''
            \<and> (CHR 0x0A \<in> set field \<longleftrightarrow> cname_text_has_newline m c))
         \<and> is_signed_decimal (fmt_d (rr_type c)) \<and> signed_value (fmt_d (rr_type c)) = sint (rr_type c)
         \<and> is_signed_decimal (fmt_d (rr_class c)) \<and> signed_value (fmt_d (rr_class c)) = sint (rr_class c)
         \<and> is_decimal (fmt_lu (ttl c)) \<and> decimal_value (fmt_lu (ttl c)) = unat (ttl c)
         \<and> is_signed_decimal (fmt_d (rdlength c)) \<and> signed_value (fmt_d (rdlength c)) = sint (rdlength c)"
proof -
  have h: "header c = ''Type: '' @ fmt_d (rr_type c) @ '' Class: '' @ fmt_d (rr_class c)
      @ '' TTL: '' @ fmt_lu (ttl c) @ '' RDLength: '' @ fmt_d (rdlength c) @ '' ''"
    by (simp add: header_def)
  from render_record_done_field [OF assms] obtain F where
    a: "stdout s = stdout st @ header c @ F @ ''\<newline>''"
    and b: "CHR 0x0A \<in> set F \<longleftrightarrow> cname_text_has_newline m c" by blast
  from a have a': "stdout s = stdout st @ ''Type: '' @ fmt_d (rr_type c) @ '' Class: ''
              @ fmt_d (rr_class c) @ '' TTL: '' @ fmt_lu (ttl c) @ '' RDLength: ''
              @ fmt_d (rdlength c) @ '' '' @ F @ ''\<newline>''"
    by (simp only: h append_assoc)
  have ex: "\<exists>field. stdout s = stdout st @ ''Type: '' @ fmt_d (rr_type c) @ '' Class: ''
              @ fmt_d (rr_class c) @ '' TTL: '' @ fmt_lu (ttl c) @ '' RDLength: ''
              @ fmt_d (rdlength c) @ '' '' @ field @ ''\<newline>''
            \<and> (CHR 0x0A \<in> set field \<longleftrightarrow> cname_text_has_newline m c)"
  proof (rule exI)
    show "stdout s = stdout st @ ''Type: '' @ fmt_d (rr_type c) @ '' Class: ''
              @ fmt_d (rr_class c) @ '' TTL: '' @ fmt_lu (ttl c) @ '' RDLength: ''
              @ fmt_d (rdlength c) @ '' '' @ F @ ''\<newline>''
            \<and> (CHR 0x0A \<in> set F \<longleftrightarrow> cname_text_has_newline m c)"
      using a' b by (rule conjI)
  qed
  show ?thesis
    apply (intro conjI)
             apply (rule ex)
            apply (rule fmt_d_signed [THEN conjunct1])
           apply (rule fmt_d_signed [THEN conjunct2])
          apply (rule fmt_d_signed [THEN conjunct1])
         apply (rule fmt_d_signed [THEN conjunct2])
        apply (rule fmt_lu_decimal [THEN conjunct1])
       apply (rule fmt_lu_decimal [THEN conjunct2])
      apply (rule fmt_d_signed [THEN conjunct1])
     apply (rule fmt_d_signed [THEN conjunct2])
    done
qed

theorem header_fields_then_data_witness:
  "(\<exists>s. render_record mem_cname rec_cname st0 = Done s
      \<and> stdout s = ''Type: 5 Class: 1 TTL: 600 RDLength: 5 RData (CNAME): www\<newline>''
      \<and> (\<exists>field. stdout s = stdout st0 @ ''Type: '' @ fmt_d (rr_type rec_cname) @ '' Class: ''
              @ fmt_d (rr_class rec_cname) @ '' TTL: '' @ fmt_lu (ttl rec_cname) @ '' RDLength: ''
              @ fmt_d (rdlength rec_cname) @ '' '' @ field @ ''\<newline>''
            \<and> CHR 0x0A \<notin> set field))
   \<and> \<not> cname_text_has_newline mem_cname rec_cname
   \<and> signed_value (fmt_d (rr_type rec_cname)) = 5 \<and> decimal_value (fmt_lu (ttl rec_cname)) = 600"
proof -
  define s where "s = state_of (render_record mem_cname rec_cname st0)"
  have d: "render_record mem_cname rec_cname st0 = Done s"
    unfolding s_def
    by (simp add: eval_defs st0_def mem_cname_def rec_cname_def)
  have out: "stdout s = ''Type: 5 Class: 1 TTL: 600 RDLength: 5 RData (CNAME): www\<newline>''"
    unfolding s_def
    by (simp add: eval_defs dec.simps st0_def mem_cname_def rec_cname_def char_of_eq_iff)
  have nn: "\<not> cname_text_has_newline mem_cname rec_cname"
    by (simp add: cname_text_has_newline_def load_cstr_def readable_def mem_cname_def rec_cname_def)
  have v: "sint (rr_type rec_cname) = 5" "unat (ttl rec_cname) = 600"
    by (simp_all add: rec_cname_def)
  from header_fields_then_data [OF d] nn v have
    "(\<exists>field. stdout s = stdout st0 @ ''Type: '' @ fmt_d (rr_type rec_cname) @ '' Class: ''
              @ fmt_d (rr_class rec_cname) @ '' TTL: '' @ fmt_lu (ttl rec_cname) @ '' RDLength: ''
              @ fmt_d (rdlength rec_cname) @ '' '' @ field @ ''\<newline>''
            \<and> CHR 0x0A \<notin> set field)"
    and "signed_value (fmt_d (rr_type rec_cname)) = 5"
    and "decimal_value (fmt_lu (ttl rec_cname)) = 600"
    by simp_all
  with d out nn show ?thesis by blast
qed

text \<open>
  The record is not always printed on a single line: for a canonical-name record the length
  byte 10 of the label \<^verbatim>\<open>cloudfront\<close> is printed as a newline right after the label
  \<^verbatim>\<open>RData (CNAME): \<close>, and the record takes two lines.
\<close>

theorem cname_newline_two_lines:
  "(case render_record mem_cf rec_cf st0 of
      Done s \<Rightarrow>
        stdout s = ''Type: 5 Class: 1 TTL: 600 RDLength: 16 RData (CNAME): \<newline>cloudfront''
                     @ [CHR 0x03] @ ''net\<newline>''
        \<and> length (filter (\<lambda>ch. ch = CHR 0x0A) (stdout s)) = 2
    | Crash s \<Rightarrow> False)"
  by (simp add: eval_defs dec.simps st0_def mem_cf_def rec_cf_def char_of_eq_iff)

subsection \<open>The program's exit status\<close>

lemma successful_lookup_exits_0:
  "(case main (env_of msg_one) [''simple_lookup'', ''example.com'']
           (st_init Map.empty [(16, zeroed), (32, zeroed)]) of
      Some (Exit n s) \<Rightarrow> n = 0 \<and> stderr s = []
        \<and> stdout s = ''Resolving hostname example.com\<newline>Response:\<newline>Type: 1 Class: 1 TTL: 300 RDLength: 4 RData: 93.184.216.34\<newline>''
    | _ \<Rightarrow> False)"
  by code_simp

lemma early_failure_exits_1:
  assumes "length argv < 2 \<or> regexec e (argv ! 1) \<noteq> 0 \<or> \<not> ns_buffer_allocated e
      \<or> res_query e (take 253 (argv ! 1)) < 0 \<or> fst (ns_initparse e) < 0"
  shows "\<exists>s. main e argv st = Some (Exit 1 s)"
  using assms
  by (cases "ns_initparse e")
     (auto simp: main_def isvalidhostname_def Let_def REG_NOMATCH_def MAX_HOSTNAME_LEN_def)

text \<open>
  Claim C5 does not hold of the code. A response with no answer makes the program report
  \<^verbatim>\<open>No answers found\<close> and go on to exit with status 0; a host name of 254 characters
  makes it report \<^verbatim>\<open>Hostname is too long\<close>, query the first 253 characters and exit
  with status 0.
\<close>

theorem exit_status_0_after_failure:
  "(case main (env_of msg_empty) [''simple_lookup'', ''example.com'']
           (st_init Map.empty [(16, zeroed)]) of
      Some (Exit n s) \<Rightarrow> n = 0 \<and> stderr s = [''No answers found'']
        \<and> stdout s = ''Resolving hostname example.com\<newline>Response:\<newline>''
    | _ \<Rightarrow> False)
   \<and> length long_name = 254
   \<and> (case main (env_of msg_one) [''simple_lookup'', long_name]
           (st_init Map.empty [(16, zeroed), (32, zeroed)]) of
      Some (Exit n s) \<Rightarrow> n = 0 \<and> stderr s = [''Hostname is too long'']
        \<and> stdout s = ''Resolving hostname '' @ take 253 long_name
              @ ''\<newline>Response:\<newline>Type: 1 Class: 1 TTL: 300 RDLength: 4 RData: 93.184.216.34\<newline>''
    | _ \<Rightarrow> False)"
  by code_simp

subsection \<open>The decoder\<close>

text \<open>
  Claim C1 does not hold of the code. When the first of two answers cannot be extracted,
  the decoder reports \<^verbatim>\<open>Could not parse response\<close> and goes on: it appends a node filled
  from whatever \<^verbatim>\<open>rr\<close> holds, decodes the second answer, and returns normally; the program
  then renders both nodes and exits with status 0.
\<close>

theorem extraction_failure_goes_on:
  "(case rr_response_new (st_init Map.empty [(16, zeroed), (32, zeroed), (48, zeroed)]) of
      (head, st) \<Rightarrow>
        (case rr_response_parse head msg_fail_first 2 st of
           Some (Done s) \<Rightarrow>
             chain (heap s) head
               [(16, zeroed\<lparr>rr_next := 32\<rparr>), (32, zeroed\<lparr>rr_next := 48\<rparr>), (48, rec_a)]
             \<and> stderr s = [''Could not parse response'']
         | _ \<Rightarrow> False))
   \<and> (case main (env_of msg_fail_first) [''simple_lookup'', ''example.com'']
           (st_init Map.empty [(16, zeroed), (32, zeroed), (48, zeroed)]) of
      Some (Exit n s) \<Rightarrow> n = 0
        \<and> stderr s = [''Could not parse response'', ''rdata is NULL'']
        \<and> stdout s = ''Resolving hostname example.com\<newline>Response:\<newline>Type: 0 Class: 0 TTL: 0 RDLength: 0 RData (unknown type): \<newline>Type: 1 Class: 1 TTL: 300 RDLength: 4 RData: 93.184.216.34\<newline>''
    | _ \<Rightarrow> False)"
  by code_simp

text \<open>
  Claim C2 does not hold of the code. \<^verbatim>\<open>rr_response_new\<close> leaves \<^verbatim>\<open>next\<close> as \<^verbatim>\<open>malloc\<close>
  returned it. When the head's \<^verbatim>\<open>next\<close> holds the address of an older block, the walk of
  \<^verbatim>\<open>rr_response_add\<close> goes through that block: with one answer and no extraction failure
  the decoder returns normally and the list after the head has two nodes.
\<close>

theorem uncleared_next_extra_node:
  "(case rr_response_new (st_init [48 \<mapsto> stale] [(16, zeroed\<lparr>rr_next := 48\<rparr>), (32, zeroed)]) of
      (head, st) \<Rightarrow>
        (case rr_response_parse head msg_one 1 st of
           Some (Done s) \<Rightarrow>
             chain (heap s) head
               [(16, zeroed\<lparr>rr_next := 48\<rparr>), (48, stale\<lparr>rr_next := 32\<rparr>), (32, rec_a)]
             \<and> stderr s = []
         | _ \<Rightarrow> False))"
  by code_simp

text \<open>
  Claim C3 does not hold of the code, for the same reason: with two answers extracted in
  order, the list after the head is the older block followed by the two records, not the
  two records.
\<close>

theorem uncleared_next_wrong_sequence:
  "(case rr_response_new (st_init [48 \<mapsto> stale]
           [(16, zeroed\<lparr>rr_next := 48\<rparr>), (32, zeroed), (64, zeroed)]) of
      (head, st) \<Rightarrow>
        (case rr_response_parse head msg_two 2 st of
           Some (Done s) \<Rightarrow>
             chain (heap s) head
               [(16, zeroed\<lparr>rr_next := 48\<rparr>), (48, stale\<lparr>rr_next := 32\<rparr>),
                (32, rec_a\<lparr>rr_next := 64\<rparr>), (64, rec_hex\<lparr>rdata := 104\<rparr>)]
             \<and> map rr_fields [stale\<lparr>rr_next := 32\<rparr>, rec_a\<lparr>rr_next := 64\<rparr>, rec_hex\<lparr>rdata := 104\<rparr>]
                 = [rr_fields stale, extracted rr_a, extracted rr_b]
             \<and> [rr_fields stale, extracted rr_a, extracted rr_b] \<noteq> [extracted rr_a, extracted rr_b]
         | _ \<Rightarrow> False))"
  by code_simp

subsection \<open>The head of the list\<close>

text \<open>
  Claim C10 does not hold of the code, for the same reason. Two runs that differ only in
  what the head's \<^verbatim>\<open>next\<close> field held when \<^verbatim>\<open>malloc\<close> returned it print different
  output for the same single answer: with the address of an older block there, that block
  is rendered as a record before the decoded one.
\<close>

theorem head_next_affects_output:
  "(case main (env_of msg_one) [''simple_lookup'', ''example.com'']
           (st_init [48 \<mapsto> stale] [(16, zeroed\<lparr>rr_next := 48\<rparr>), (32, zeroed)]) of
      Some (Exit n s) \<Rightarrow> n = 0
        \<and> stdout s = ''Resolving hostname example.com\<newline>Response:\<newline>Type: 99 Class: 7 TTL: 0 RDLength: 0 RData (unknown type): \<newline>Type: 1 Class: 1 TTL: 300 RDLength: 4 RData: 93.184.216.34\<newline>''
    | _ \<Rightarrow> False)
   \<and> (case main (env_of msg_one) [''simple_lookup'', ''example.com'']
           (st_init [48 \<mapsto> stale] [(16, zeroed), (32, zeroed)]) of
      Some (Exit n s) \<Rightarrow> n = 0
        \<and> stdout s = ''Resolving hostname example.com\<newline>Response:\<newline>Type: 1 Class: 1 TTL: 300 RDLength: 4 RData: 93.184.216.34\<newline>''
    | _ \<Rightarrow> False)"
  by code_simp

end
